(* ===== verification/Prelude.thy ===== *)
theory Prelude
  imports Main
begin

text \<open>
  Shared vocabulary of the Sudoku development (src/javascript/sudoku.js).
  The solver keeps two 9x9 JavaScript arrays of arrays: \<open>values\<close>, whose cells
  are \<open>null\<close> or a number, and \<open>domains\<close>, a \<open>structuredClone\<close> of the input in
  which every empty cell was replaced by a \<open>Set\<close> of candidates. Here a cell
  coordinate \<open>[x, y]\<close> is a pair of naturals, \<open>values\<close> is a
  \<open>nat option list list\<close> (\<open>None\<close> is \<open>null\<close>), and an entry of \<open>domains\<close>
  is a \<open>dentry\<close>: a number, \<open>null\<close>, a \<open>Set\<close> (a duplicate-free list in
  insertion order, which is the iteration order of a JavaScript \<open>Set\<close>), or
  \<open>undefined\<close>, the value of an out-of-range array read.
  The theory also fixes the three scans of a cell's row, column and 3x3 block
  that the constructor and \<open>neighbours\<close> share, the peer relation of the
  puzzle, and the generic lemmas on nested-list reads and updates.
\<close>

named_theorems grid_simps "reads of updated grids"

type_synonym pos = "nat \<times> nat"
type_synonym grid = "nat option list list"

datatype dentry = DNum nat | DNull | DSet "nat list" | DUndef

type_synonym dgrid = "dentry list list"

section \<open>Arrays of arrays\<close>

definition at :: "'a list list \<Rightarrow> pos \<Rightarrow> 'a" where
  "at g p = g ! fst p ! snd p"

definition upd :: "'a list list \<Rightarrow> pos \<Rightarrow> 'a \<Rightarrow> 'a list list" where
  "upd g p v = g[fst p := (g ! fst p)[snd p := v]]"

definition in_range :: "'a list list \<Rightarrow> pos \<Rightarrow> bool" where
  "in_range g p \<longleftrightarrow> fst p < length g \<and> snd p < length (g ! fst p)"

text \<open>\<open>domains[i][j]\<close>: out of range it is \<open>undefined\<close>.\<close>

definition dget :: "dgrid \<Rightarrow> pos \<Rightarrow> dentry" where
  "dget d p = (if in_range d p then at d p else DUndef)"

definition shape9 :: "'a list list \<Rightarrow> bool" where
  "shape9 g \<longleftrightarrow> length g = 9 \<and> list_all (\<lambda>r. length r = 9) g"

text \<open>All 81 coordinates in row-major order, the order of the source's
  double loops \<open>for (i = 0; i < 9; i++) for (j = 0; j < 9; j++)\<close>.\<close>

definition cells :: "pos list" where
  "cells = List.product [0..<9] [0..<9]"

section \<open>JavaScript Sets\<close>

text \<open>\<open>s.size\<close> is a number for a \<open>Set\<close> and \<open>undefined\<close> (\<open>None\<close>) otherwise.\<close>

fun size_of :: "dentry \<Rightarrow> nat option" where
  "size_of (DSet xs) = Some (length xs)"
| "size_of _ = None"

fun has :: "dentry \<Rightarrow> nat \<Rightarrow> bool" where
  "has (DSet xs) v = (v \<in> set xs)"
| "has _ v = False"

fun is_set :: "dentry \<Rightarrow> bool" where
  "is_set (DSet xs) = True"
| "is_set _ = False"

text \<open>The members a \<open>for ... of\<close> loop visits.\<close>

fun elems :: "dentry \<Rightarrow> nat list" where
  "elems (DSet xs) = xs"
| "elems _ = []"

text \<open>\<open>Set.prototype.add\<close>: a new member goes last, an old one stays in place.\<close>

definition set_add :: "'a list \<Rightarrow> 'a \<Rightarrow> 'a list" where
  "set_add s x = (if x \<in> set s then s else s @ [x])"

section \<open>Rows, columns, blocks\<close>

text \<open>The scans of sudoku.js lines 38-58 and 165-182: the other cells of the
  row, of the column, and of the 3x3 block whose corner is
  \<open>(x - x % 3, y - y % 3)\<close>, each in loop order.\<close>

fun row_cells :: "pos \<Rightarrow> pos list" where
  "row_cells (x, y) = map (Pair x) (filter (\<lambda>i. i \<noteq> y) [0..<9])"

fun col_cells :: "pos \<Rightarrow> pos list" where
  "col_cells (x, y) = map (\<lambda>i. (i, y)) (filter (\<lambda>i. i \<noteq> x) [0..<9])"

fun block_cells :: "pos \<Rightarrow> pos list" where
  "block_cells (x, y) =
     filter (\<lambda>q. q \<noteq> (x, y))
       (List.product [x - x mod 3..<x - x mod 3 + 3] [y - y mod 3..<y - y mod 3 + 3])"

declare row_cells.simps [simp del] col_cells.simps [simp del] block_cells.simps [simp del]

definition peer_cells :: "pos \<Rightarrow> pos list" where
  "peer_cells p = row_cells p @ col_cells p @ block_cells p"

text \<open>The constraint graph of the puzzle: two distinct cells that share a row,
  a column or a 3x3 block.\<close>

fun peer :: "pos \<Rightarrow> pos \<Rightarrow> bool" where
  "peer (x, y) (i, j) \<longleftrightarrow>
     (i, j) \<noteq> (x, y) \<and> (i = x \<or> j = y \<or> (i div 3 = x div 3 \<and> j div 3 = y div 3))"

section \<open>Lemmas\<close>

lemma in_cells: "p \<in> set cells \<longleftrightarrow> fst p < 9 \<and> snd p < 9"
  by (cases p) (auto simp: cells_def)

lemma distinct_cells: "distinct cells"
  unfolding cells_def by (simp add: distinct_product)

lemma shape9_in_range [simp]:
  "shape9 g \<Longrightarrow> p \<in> set cells \<Longrightarrow> in_range g p"
  by (cases p) (auto simp: shape9_def in_range_def list_all_length in_cells)

lemma shape9_nth_length: "shape9 g \<Longrightarrow> i < 9 \<Longrightarrow> length (g ! i) = 9"
  by (auto simp: shape9_def list_all_length)

lemma length_upd [simp]: "length (upd g p v) = length g"
  by (simp add: upd_def)

lemma length_upd_nth [simp]: "length (upd g p v ! n) = length (g ! n)"
  by (cases "fst p < length g"; cases "n = fst p")
    (auto simp: upd_def nth_list_update list_update_beyond)

lemma in_range_upd [simp]: "in_range (upd g p v) q = in_range g q"
  by (simp add: in_range_def)

lemma shape9_upd [simp]: "shape9 (upd g p v) = shape9 g"
  by (simp add: shape9_def list_all_length)

lemma at_upd [grid_simps]:
  "in_range g p \<Longrightarrow> at (upd g p v) q = (if q = p then v else at g q)"
  by (cases p, cases q) (auto simp: at_def upd_def in_range_def nth_list_update)

lemma dget_upd [grid_simps]:
  "in_range d p \<Longrightarrow> dget (upd d p v) q = (if q = p then v else dget d q)"
  by (simp add: dget_def at_upd)

lemma upd_out [grid_simps]: "\<not> in_range d p \<Longrightarrow> upd d p v = d"
  by (auto simp: upd_def in_range_def list_update_beyond)

lemma block_range_iff:
  "(x - x mod 3 \<le> (i::nat) \<and> i < x + 3 - x mod 3) \<longleftrightarrow> i div 3 = x div 3"
proof -
  have e1: "x - x mod 3 = 3 * (x div 3)" by (simp add: minus_mod_eq_mult_div)
  moreover have "x mod 3 \<le> x" by simp
  ultimately have e: "x - x mod 3 = 3 * (x div 3)" "x + 3 - x mod 3 = 3 * (x div 3) + 3"
    by linarith+
  have "(3 * (x div 3) \<le> i \<and> i < 3 * (x div 3) + 3) \<longleftrightarrow> i div 3 = x div 3"
  proof
    assume "3 * (x div 3) \<le> i \<and> i < 3 * (x div 3) + 3"
    then show "i div 3 = x div 3" by (intro div_nat_eqI) auto
  next
    assume h: "i div 3 = x div 3"
    have "3 * (i div 3) \<le> i" by simp
    moreover have "i < 3 + 3 * (i div 3)" by (rule dividend_less_times_div) simp
    ultimately show "3 * (x div 3) \<le> i \<and> i < 3 * (x div 3) + 3" using h by simp
  qed
  with e show ?thesis by simp
qed

lemma block_lt9: "x < 9 \<Longrightarrow> i div 3 = x div 3 \<Longrightarrow> (i::nat) < 9"
proof -
  assume "x < 9" "i div 3 = x div 3"
  then have "i div 3 < 3" by simp
  moreover have "i < 3 + 3 * (i div 3)" by (rule dividend_less_times_div) simp
  ultimately show "i < 9" by linarith
qed

lemma mem_row_cells [simp]:
  "(a, b) \<in> set (row_cells (x, y)) \<longleftrightarrow> a = x \<and> b < 9 \<and> b \<noteq> y"
  by (auto simp: row_cells.simps)

lemma mem_col_cells [simp]:
  "(a, b) \<in> set (col_cells (x, y)) \<longleftrightarrow> b = y \<and> a < 9 \<and> a \<noteq> x"
  by (auto simp: col_cells.simps)

lemma mem_block_cells [simp]:
  "(a, b) \<in> set (block_cells (x, y)) \<longleftrightarrow>
     a div 3 = x div 3 \<and> b div 3 = y div 3 \<and> (a, b) \<noteq> (x, y)"
  by (simp add: block_cells.simps block_range_iff)

lemma mem_peer_cells:
  "(a, b) \<in> set (peer_cells (x, y)) \<longleftrightarrow>
     (a = x \<and> b < 9 \<and> b \<noteq> y) \<or> (b = y \<and> a < 9 \<and> a \<noteq> x) \<or>
     (a div 3 = x div 3 \<and> b div 3 = y div 3 \<and> (a, b) \<noteq> (x, y))"
  by (simp add: peer_cells_def)

lemma set_peer_cells:
  "p \<in> set cells \<Longrightarrow> set (peer_cells p) = {q \<in> set cells. peer p q}"
proof (rule set_eqI)
  fix q :: pos assume "p \<in> set cells"
  obtain x y a b where p: "p = (x, y)" and q: "q = (a, b)" by fastforce
  with \<open>p \<in> set cells\<close> have "x < 9" "y < 9" by (auto simp: in_cells)
  then have "a div 3 = x div 3 \<Longrightarrow> a < 9" "b div 3 = y div 3 \<Longrightarrow> b < 9"
    using block_lt9 by blast+
  then show "q \<in> set (peer_cells p) \<longleftrightarrow> q \<in> {q \<in> set cells. peer p q}"
    unfolding p q mem_peer_cells using \<open>x < 9\<close> \<open>y < 9\<close> by (auto simp: in_cells peer.simps)
qed

lemma peer_sym: "peer p q = peer q p"
  by (cases p, cases q) auto

lemma peer_irrefl [simp]: "\<not> peer p p"
  by (cases p) auto

declare peer.simps [simp del]

text \<open>Writing one entry per position of a list, as the constructor's loop over
  the variables does.\<close>

lemma dget_fold_upd:
  assumes "\<forall>q \<in> set ps. in_range d q"
  shows "dget (fold (\<lambda>q d. upd d q (f q)) ps d) p =
           (if p \<in> set ps then f p else dget d p)"
  using assms
proof (induction ps arbitrary: d)
  case Nil
  then show ?case by simp
next
  case (Cons q ps)
  then have "\<forall>r \<in> set ps. in_range (upd d q (f q)) r" by simp
  with Cons.IH [of "upd d q (f q)"] Cons.prems show ?case
    by (auto simp: dget_upd)
qed

lemma distinct_set_singleton: "distinct xs \<Longrightarrow> set xs = {p} \<Longrightarrow> xs = [p]"
  by (cases xs) (auto dest: subset_singletonD)

end
