(* ===== verification/Neighbours.thy ===== *)
theory Neighbours
  imports Prelude
begin

text \<open>
  The constraint graph among the variables: \<open>neighbours\<close> and the helper
  \<open>itemInArray\<close> (src/javascript/sudoku.js lines 155-189 and 235-239), and the
  binary consistency check \<open>consistent\<close> (lines 142-153). The neighbours of a
  cell are the variables (cells empty in the input) among its peers, collected
  in a \<open>Set\<close> of JSON strings in scan order (row, column, block). The lemmas
  show that the list is duplicate-free, that its members are exactly the
  variable peers, and what \<open>consistent\<close> checks: the value of a cell
  against its variable peers only, never against a given cell.
\<close>

section \<open>Definitions\<close>

text \<open>\<open>JSON.stringify\<close> equality of two \<open>[x, y]\<close> arrays is equality of the pairs.\<close>

definition itemInArray :: "pos list \<Rightarrow> pos \<Rightarrow> bool" where
  "itemInArray arr item \<longleftrightarrow> list_ex (\<lambda>e. e = item) arr"

definition neighbours :: "pos list \<Rightarrow> pos \<Rightarrow> pos list" where
  "neighbours vars v =
     fold (\<lambda>q s. if itemInArray vars q then set_add s q else s) (peer_cells v) []"

definition consistent :: "pos list \<Rightarrow> pos \<Rightarrow> grid \<Rightarrow> bool" where
  "consistent vars v vals \<longleftrightarrow> list_all (\<lambda>n. at vals v \<noteq> at vals n) (neighbours vars v)"

section \<open>Lemmas\<close>

lemma itemInArray_iff [simp]: "itemInArray arr item \<longleftrightarrow> item \<in> set arr"
  by (auto simp: itemInArray_def list_ex_iff)

lemma fold_set_add:
  "set (fold (\<lambda>q s. if P q then set_add s q else s) qs s) = set s \<union> {q \<in> set qs. P q}
   \<and> (distinct s \<longrightarrow> distinct (fold (\<lambda>q s. if P q then set_add s q else s) qs s))"
  by (induction qs arbitrary: s) (auto simp: set_add_def)

lemma distinct_neighbours: "distinct (neighbours vars v)"
  using fold_set_add [of "\<lambda>q. q \<in> set vars" "peer_cells v" "[]"]
  by (simp add: neighbours_def)

lemma set_neighbours_peer_cells:
  "set (neighbours vars v) = {q \<in> set (peer_cells v). q \<in> set vars}"
  using fold_set_add [of "\<lambda>q. q \<in> set vars" "peer_cells v" "[]"]
  by (simp add: neighbours_def)

lemma set_neighbours:
  "v \<in> set cells \<Longrightarrow>
     set (neighbours vars v) = {q \<in> set vars. q \<in> set cells \<and> peer v q}"
  by (simp add: set_neighbours_peer_cells set_peer_cells) blast

lemma mem_neighbours:
  "v \<in> set cells \<Longrightarrow>
     q \<in> set (neighbours vars v) \<longleftrightarrow> q \<in> set vars \<and> q \<in> set cells \<and> peer v q"
  by (simp add: set_neighbours)

lemma neighbours_peer_cells:
  "q \<in> set (neighbours vars v) \<Longrightarrow> q \<in> set (peer_cells v) \<and> q \<in> set vars"
  by (simp add: set_neighbours_peer_cells)

lemma not_self_neighbour [simp]: "v \<notin> set (neighbours vars v)"
proof
  assume "v \<in> set (neighbours vars v)"
  then have "v \<in> set (peer_cells v)" by (simp add: neighbours_peer_cells)
  moreover obtain x y where "v = (x, y)" by fastforce
  ultimately show False by (simp add: mem_peer_cells)
qed

lemma consistent_iff:
  "v \<in> set cells \<Longrightarrow> consistent vars v vals \<longleftrightarrow>
     (\<forall>q \<in> set vars. q \<in> set cells \<longrightarrow> peer v q \<longrightarrow> at vals v \<noteq> at vals q)"
  unfolding consistent_def list_all_iff set_neighbours by blast

section \<open>Properties\<close>

text \<open>C8. \<open>neighbours vars v\<close> is duplicate-free and holds exactly the
  variables that share a row, column or block with \<open>v\<close>.\<close>

theorem neighbours_spec:
  assumes "v \<in> set cells"
  shows "distinct (neighbours vars v) \<and>
    set (neighbours vars v) = {q \<in> set vars. q \<in> set cells \<and> peer v q}"
  using assms by (simp add: distinct_neighbours set_neighbours)

theorem neighbours_spec_witness:
  "(4, 4) \<in> set cells \<and> distinct (neighbours cells (4, 4)) \<and>
   set (neighbours cells (4, 4)) = {q \<in> set cells. q \<in> set cells \<and> peer (4, 4) q}"
proof -
  have c: "(4::nat, 4::nat) \<in> set cells" by code_simp
  show ?thesis using neighbours_spec [OF c, of cells] c by simp
qed

text \<open>C9. \<open>consistent vars v values\<close> holds exactly when no variable peer of
  \<open>v\<close> holds the value of \<open>v\<close>; given (non-variable) cells are not checked.\<close>

theorem consistent_spec:
  assumes "v \<in> set cells"
  shows "consistent vars v vals \<longleftrightarrow>
    (\<forall>q \<in> set vars. q \<in> set cells \<longrightarrow> peer v q \<longrightarrow> at vals v \<noteq> at vals q)"
  using assms by (rule consistent_iff)

theorem consistent_spec_witness:
  "(0, 0) \<in> set cells \<and>
   \<not> consistent [(0, 0), (0, 5)] (0, 0) (upd (upd (replicate 9 (replicate 9 None)) (0, 0) (Some 3)) (0, 5) (Some 3)) \<and>
   consistent [(0, 0)] (0, 0) (upd (upd (replicate 9 (replicate 9 None)) (0, 0) (Some 3)) (0, 5) (Some 3))"
proof -
  have c: "(0::nat, 0::nat) \<in> set cells" by code_simp
  have n: "\<not> consistent [(0, 0), (0, 5)] (0, 0)
      (upd (upd (replicate 9 (replicate 9 None)) (0, 0) (Some 3)) (0, 5) (Some 3))"
    unfolding consistent_spec [OF c] by code_simp
  have y: "consistent [(0, 0)] (0, 0)
      (upd (upd (replicate 9 (replicate 9 None)) (0, 0) (Some 3)) (0, 5) (Some 3))"
    by code_simp
  show ?thesis using c n y by simp
qed

end
