(* ===== verification/AC3.thy ===== *)
theory AC3
  imports Neighbours
begin

text \<open>
  Arc consistency: \<open>revise\<close> and \<open>ac3\<close> (src/javascript/sudoku.js lines
  191-231). \<open>ac3 v d\<close> seeds a FIFO queue with the arcs \<open>(n, v)\<close> for every
  neighbour \<open>n\<close> of the just-assigned cell \<open>v\<close>; popping \<open>(a, b)\<close> runs
  \<open>revise\<close>, which deletes from the domain of \<open>a\<close> the first candidate that is
  also a candidate of \<open>b\<close>. After a deletion the code tests the size of
  \<open>domains[a[0]][b[0]]\<close> (sic) for emptiness and, if the domain of \<open>a\<close> is now a
  singleton, queues \<open>(c, a)\<close> for every neighbour \<open>c \<noteq> b\<close> of \<open>a\<close>. The
  domains are mutated in place; the model returns the final domains
  (\<open>Some\<close>, the code's \<open>true\<close>) or \<open>None\<close> (\<open>false\<close>).
  The loop terminates because every deletion shrinks the total size of the
  domains and every other iteration shortens the queue.
\<close>

section \<open>Definitions\<close>

text \<open>Lines 219-231. The loop over \<open>domains[a]\<close> returns at the first value that
  \<open>domains[b]\<close> has; a domain that is not a \<open>Set\<close> has no members here (in the
  code it would throw; in the search every arc joins two variables, whose
  domains are \<open>Set\<close>s by the invariant \<open>dom_ok\<close> of theory Search).\<close>

definition revise :: "pos \<Rightarrow> pos \<Rightarrow> dgrid \<Rightarrow> bool \<times> dgrid" where
  "revise a b d =
     (case find (has (dget d b)) (elems (dget d a)) of
        None \<Rightarrow> (False, d)
      | Some v \<Rightarrow> (True, upd d a (DSet (removeAll v (elems (dget d a))))))"

text \<open>Total number of candidates, the termination measure.\<close>

definition dsize :: "dgrid \<Rightarrow> nat" where
  "dsize d = sum_list (map (\<lambda>row. sum_list (map (\<lambda>e. length (elems e)) row)) d)"

lemma sum_list_map_update:
  "i < length xs \<Longrightarrow>
     sum_list (map f (xs[i := x])) + f (xs ! i) = sum_list (map f xs) + (f x :: nat)"
  by (induction xs arbitrary: i) (auto split: nat.splits)

lemma dsize_upd:
  assumes "in_range d p"
  shows "dsize (upd d p e) + length (elems (dget d p)) = dsize d + length (elems e)"
proof -
  obtain i j where p: "p = (i, j)" by fastforce
  with assms have i: "i < length d" and j: "j < length (d ! i)"
    by (auto simp: in_range_def)
  let ?f = "\<lambda>e. length (elems e)"
  let ?g = "\<lambda>row. sum_list (map ?f row)"
  have row: "?g ((d ! i)[j := e]) + ?f (d ! i ! j) = ?g (d ! i) + ?f e"
    using j by (rule sum_list_map_update)
  have "sum_list (map ?g (d[i := (d ! i)[j := e]])) + ?g (d ! i) = sum_list (map ?g d) + ?g ((d ! i)[j := e])"
    using i by (rule sum_list_map_update)
  with row assms show ?thesis
    by (simp add: dsize_def upd_def dget_def at_def p)
qed


lemma revise_dsize:
  assumes "revise a b d = (r, d')"
  shows "(r \<longrightarrow> dsize d' < dsize d) \<and> (\<not> r \<longrightarrow> d' = d)"
proof (cases "find (has (dget d b)) (elems (dget d a))")
  case None
  with assms show ?thesis by (simp add: revise_def)
next
  case (Some v)
  then have v: "v \<in> set (elems (dget d a))" by (auto simp: find_Some_iff)
  then have inr: "in_range d a" by (cases "in_range d a") (auto simp: dget_def)
  have "length (removeAll v (elems (dget d a))) < length (elems (dget d a))"
    using v by (rule length_removeAll_less)
  with dsize_upd [OF inr, of "DSet (removeAll v (elems (dget d a)))"] Some assms
  show ?thesis by (simp add: revise_def)
qed

function ac3_loop :: "pos list \<Rightarrow> (pos \<times> pos) list \<Rightarrow> dgrid \<Rightarrow> dgrid option" where
  "ac3_loop vars [] d = Some d"
| "ac3_loop vars ((a, b) # q) d =
     (let (changed, d') = revise a b d in
      if changed then
        (if size_of (dget d' (fst a, fst b)) = Some 0 then None
         else ac3_loop vars
           (q @ (if size_of (dget d' a) = Some 1
                 then map (\<lambda>c. (c, a)) (filter (\<lambda>c. c \<noteq> b) (neighbours vars a))
                 else [])) d')
      else ac3_loop vars q d')"
  by pat_completeness auto
termination
  by (relation "measures [\<lambda>(vars, q, d). dsize d, \<lambda>(vars, q, d). length q]")
    (auto dest: sym [THEN revise_dsize])

definition ac3 :: "pos list \<Rightarrow> pos \<Rightarrow> dgrid \<Rightarrow> dgrid option" where
  "ac3 vars v d = ac3_loop vars (map (\<lambda>n. (n, v)) (neighbours vars v)) d"

section \<open>Domains only shrink\<close>

text \<open>An entry of \<open>domains\<close> only loses members: a \<open>Set\<close> stays a \<open>Set\<close> with
  fewer candidates (and stays duplicate-free), any other entry is unchanged.\<close>

fun entry_le :: "dentry \<Rightarrow> dentry \<Rightarrow> bool" where
  "entry_le (DSet ys) (DSet xs) \<longleftrightarrow> set ys \<subseteq> set xs \<and> (distinct xs \<longrightarrow> distinct ys)"
| "entry_le e' e \<longleftrightarrow> e' = e"

definition shrinks :: "dgrid \<Rightarrow> dgrid \<Rightarrow> bool" where
  "shrinks d d' \<longleftrightarrow> (\<forall>p. in_range d' p = in_range d p \<and> entry_le (dget d' p) (dget d p))"

lemma entry_le_refl [simp]: "entry_le e e"
  by (cases e) auto

lemma entry_le_trans: "entry_le e2 e1 \<Longrightarrow> entry_le e3 e2 \<Longrightarrow> entry_le e3 e1"
  by (cases e1; cases e2; cases e3) auto

lemma entry_le_elems: "entry_le e' e \<Longrightarrow> set (elems e') \<subseteq> set (elems e)"
  by (cases e; cases e') auto

lemma entry_le_DSet: "entry_le e' (DSet xs) \<Longrightarrow> \<exists>ys. e' = DSet ys"
  by (cases e') auto

lemma entry_le_not_DSet: "entry_le e' e \<Longrightarrow> (\<forall>xs. e \<noteq> DSet xs) \<Longrightarrow> e' = e"
  by (cases e; cases e') auto

lemma entry_le_is_set: "entry_le e' e \<Longrightarrow> \<not> is_set e \<Longrightarrow> e' = e"
  by (cases e; cases e') auto

lemma shrinks_refl [simp]: "shrinks d d"
  by (simp add: shrinks_def)

lemma shrinks_trans: "shrinks d1 d2 \<Longrightarrow> shrinks d2 d3 \<Longrightarrow> shrinks d1 d3"
  unfolding shrinks_def by (blast intro: entry_le_trans)

lemma shrinks_elems: "shrinks d d' \<Longrightarrow> set (elems (dget d' p)) \<subseteq> set (elems (dget d p))"
  unfolding shrinks_def using entry_le_elems by blast

lemma revise_shrinks:
  assumes "revise a b d = (r, d')"
  shows "shrinks d d'"
proof (cases "find (has (dget d b)) (elems (dget d a))")
  case None
  with assms show ?thesis by (simp add: revise_def)
next
  case (Some v)
  then have "v \<in> set (elems (dget d a))" by (auto simp: find_Some_iff)
  then obtain xs where xs: "dget d a = DSet xs" by (cases "dget d a") auto
  then have inr: "in_range d a" by (cases "in_range d a") (auto simp: dget_def)
  have "entry_le (DSet (removeAll v xs)) (DSet xs)" by (auto simp: distinct_removeAll)
  with Some xs inr assms show ?thesis
    by (auto simp: revise_def shrinks_def dget_upd)
qed

lemma ac3_loop_shrinks: "ac3_loop vars q d = Some d' \<Longrightarrow> shrinks d d'"
proof (induction vars q d rule: ac3_loop.induct)
  case (1 vars d)
  then show ?case by simp
next
  case (2 vars a b q d)
  obtain r d1 where rv: "revise a b d = (r, d1)" by fastforce
  then have "shrinks d d1" by (rule revise_shrinks)
  with 2 rv show ?case
    by (auto simp: Let_def split: if_splits intro: shrinks_trans)
qed

lemma ac3_shrinks: "ac3 vars v d = Some d' \<Longrightarrow> shrinks d d'"
  by (simp add: ac3_def ac3_loop_shrinks)

section \<open>AC-3 keeps every solution\<close>

text \<open>\<open>\<sigma>\<close> assigns a value to every cell; it is a solution of the binary
  constraints when no two peer variables get the same value. The domains admit
  \<open>\<sigma>\<close> when every variable's domain contains its value. Every arc \<open>(a, b)\<close>
  the code queues has a domain of \<open>b\<close> that is at most \<open>{\<sigma> b}\<close>: the seeds
  because the assigned cell's domain is the singleton of its value, the later
  arcs because they are queued only when the domain of \<open>b\<close> is a singleton.
  Under these invariants \<open>revise\<close> only removes values \<open>\<sigma>\<close> does not use, and
  the emptiness test (on the cell \<open>(a[0], b[0])\<close>) never fires.\<close>

definition sol_distinct :: "pos list \<Rightarrow> (pos \<Rightarrow> nat) \<Rightarrow> bool" where
  "sol_distinct vars \<sigma> \<longleftrightarrow> (\<forall>a \<in> set vars. \<forall>b \<in> set vars.
     a \<in> set cells \<longrightarrow> b \<in> set cells \<longrightarrow> peer a b \<longrightarrow> \<sigma> a \<noteq> \<sigma> b)"

definition admits :: "(pos \<Rightarrow> nat) \<Rightarrow> pos list \<Rightarrow> dgrid \<Rightarrow> bool" where
  "admits \<sigma> vars d \<longleftrightarrow> (\<forall>p \<in> set vars. p \<in> set cells \<longrightarrow> \<sigma> p \<in> set (elems (dget d p)))"

definition arcs_ok :: "(pos \<Rightarrow> nat) \<Rightarrow> pos list \<Rightarrow> dgrid \<Rightarrow> (pos \<times> pos) list \<Rightarrow> bool" where
  "arcs_ok \<sigma> vars d q \<longleftrightarrow> (\<forall>(a, b) \<in> set q. a \<in> set vars \<and> b \<in> set vars \<and>
     a \<in> set cells \<and> b \<in> set cells \<and> peer a b \<and> set (elems (dget d b)) \<subseteq> {\<sigma> b})"

definition sets_only_vars :: "pos list \<Rightarrow> dgrid \<Rightarrow> bool" where
  "sets_only_vars vars d \<longleftrightarrow> (\<forall>p \<in> set cells. p \<notin> set vars \<longrightarrow> \<not> is_set (dget d p))"

lemma has_elems: "has e v \<longleftrightarrow> v \<in> set (elems e)"
  by (cases e) auto

lemma arcs_ok_shrinks: "arcs_ok \<sigma> vars d q \<Longrightarrow> shrinks d d' \<Longrightarrow> arcs_ok \<sigma> vars d' q"
  unfolding arcs_ok_def using shrinks_elems by fastforce

lemma sets_only_vars_shrinks:
  "sets_only_vars vars d \<Longrightarrow> shrinks d d' \<Longrightarrow> sets_only_vars vars d'"
  unfolding sets_only_vars_def shrinks_def using entry_le_is_set by metis

lemma revise_admits:
  assumes adm: "admits \<sigma> vars d" and sd: "sol_distinct vars \<sigma>"
    and arc: "a \<in> set vars" "b \<in> set vars" "a \<in> set cells" "b \<in> set cells" "peer a b"
      "set (elems (dget d b)) \<subseteq> {\<sigma> b}"
    and rv: "revise a b d = (r, d')"
  shows "admits \<sigma> vars d'"
proof (cases "find (has (dget d b)) (elems (dget d a))")
  case None
  with rv adm show ?thesis by (simp add: revise_def)
next
  case (Some v)
  then have va: "v \<in> set (elems (dget d a))" and vb: "has (dget d b) v"
    by (auto simp: find_Some_iff)
  from vb arc(6) have "v = \<sigma> b" by (auto simp: has_elems)
  moreover from sd arc(1-5) have "\<sigma> a \<noteq> \<sigma> b" by (simp add: sol_distinct_def)
  ultimately have ne: "\<sigma> a \<noteq> v" by simp
  from va obtain xs where xs: "dget d a = DSet xs" by (cases "dget d a") auto
  then have inr: "in_range d a" by (cases "in_range d a") (auto simp: dget_def)
  from Some rv xs have d': "d' = upd d a (DSet (removeAll v xs))" by (simp add: revise_def)
  show ?thesis
    unfolding admits_def
  proof (intro ballI impI)
    fix p assume p: "p \<in> set vars" "p \<in> set cells"
    show "\<sigma> p \<in> set (elems (dget d' p))"
    proof (cases "p = a")
      case True
      from adm arc(1,3) have "\<sigma> a \<in> set (elems (dget d a))" by (simp add: admits_def)
      with True xs ne show ?thesis by (simp add: d' inr dget_upd)
    next
      case False
      with adm p show ?thesis by (simp add: d' inr dget_upd admits_def)
    qed
  qed
qed

lemma size_of_Some: "size_of e = Some k \<Longrightarrow> \<exists>xs. e = DSet xs \<and> length xs = k"
  by (cases e) auto

lemma arcs_ok_append [simp]:
  "arcs_ok \<sigma> vars d (q @ r) \<longleftrightarrow> arcs_ok \<sigma> vars d q \<and> arcs_ok \<sigma> vars d r"
  by (auto simp: arcs_ok_def)

lemma pushed_arcs_ok:
  assumes "admits \<sigma> vars d" "a \<in> set vars" "a \<in> set cells" "size_of (dget d a) = Some 1"
  shows "arcs_ok \<sigma> vars d (map (\<lambda>c. (c, a)) (filter (\<lambda>c. c \<noteq> b) (neighbours vars a)))"
proof -
  from assms(4) obtain x where x: "dget d a = DSet [x]"
    by (auto dest!: size_of_Some simp: length_Suc_conv)
  from assms(1-3) have "\<sigma> a \<in> set (elems (dget d a))" by (simp add: admits_def)
  with x have "x = \<sigma> a" by simp
  with x assms(2,3) show ?thesis
    by (auto simp: arcs_ok_def mem_neighbours peer_sym)
qed

lemma ac3_loop_complete:
  "admits \<sigma> vars d \<Longrightarrow> arcs_ok \<sigma> vars d q \<Longrightarrow> sets_only_vars vars d \<Longrightarrow>
     sol_distinct vars \<sigma> \<Longrightarrow> \<exists>d'. ac3_loop vars q d = Some d' \<and> admits \<sigma> vars d'"
proof (induction vars q d rule: ac3_loop.induct)
  case (1 vars d)
  then show ?case by simp
next
  case (2 vars a b q d)
  obtain r d1 where rv: "revise a b d = (r, d1)" by fastforce
  have arc: "a \<in> set vars" "b \<in> set vars" "a \<in> set cells" "b \<in> set cells" "peer a b"
      "set (elems (dget d b)) \<subseteq> {\<sigma> b}" and q: "arcs_ok \<sigma> vars d q"
    using "2.prems"(2) by (auto simp: arcs_ok_def)
  have adm1: "admits \<sigma> vars d1" using "2.prems"(1,4) arc rv by (rule revise_admits)
  have sh: "shrinks d d1" using rv by (rule revise_shrinks)
  have q1: "arcs_ok \<sigma> vars d1 q" using q sh by (rule arcs_ok_shrinks)
  have sv1: "sets_only_vars vars d1" using "2.prems"(3) sh by (rule sets_only_vars_shrinks)
  show ?case
  proof (cases r)
    case False
    with rv have "d1 = d" by (auto dest: revise_dsize)
    with False rv "2.IH"(2) [OF rv [symmetric]] "2.prems" q show ?thesis by simp
  next
    case True
    let ?c = "(fst a, fst b)"
    have c: "?c \<in> set cells" using arc(3,4) by (simp add: in_cells)
    have nz: "size_of (dget d1 ?c) \<noteq> Some 0"
    proof (cases "?c \<in> set vars")
      case True
      with adm1 c have "\<sigma> ?c \<in> set (elems (dget d1 ?c))" by (simp add: admits_def)
      then show ?thesis by (auto dest!: size_of_Some)
    next
      case False
      with sv1 c have "\<not> is_set (dget d1 ?c)" by (simp add: sets_only_vars_def)
      then show ?thesis by (auto dest!: size_of_Some)
    qed
    let ?q' = "q @ (if size_of (dget d1 a) = Some 1
                    then map (\<lambda>c. (c, a)) (filter (\<lambda>c. c \<noteq> b) (neighbours vars a)) else [])"
    have "arcs_ok \<sigma> vars d1 (if size_of (dget d1 a) = Some 1
        then map (\<lambda>c. (c, a)) (filter (\<lambda>c. c \<noteq> b) (neighbours vars a)) else [])"
      using pushed_arcs_ok [OF adm1 arc(1,3)] by (cases "size_of (dget d1 a) = Some 1")
        (simp_all add: arcs_ok_def [of _ _ _ "[]"])
    with q1 have "arcs_ok \<sigma> vars d1 ?q'" by simp
    with "2.IH"(1) [OF rv [symmetric] refl True nz] adm1 sv1 "2.prems"(4)
    obtain d' where "ac3_loop vars ?q' d1 = Some d'" "admits \<sigma> vars d'" by blast
    with True rv nz show ?thesis by simp
  qed
qed

lemma ac3_complete:
  assumes "admits \<sigma> vars d" "sets_only_vars vars d" "sol_distinct vars \<sigma>"
    "v \<in> set vars" "v \<in> set cells" "set (elems (dget d v)) \<subseteq> {\<sigma> v}"
  shows "\<exists>d'. ac3 vars v d = Some d' \<and> admits \<sigma> vars d'"
proof -
  have "arcs_ok \<sigma> vars d (map (\<lambda>n. (n, v)) (neighbours vars v))"
    using assms(4-6) by (auto simp: arcs_ok_def mem_neighbours peer_sym)
  then show ?thesis
    unfolding ac3_def using assms(1-3) by (intro ac3_loop_complete)
qed

section \<open>Re-running AC-3\<close>

text \<open>Once every seed arc \<open>(n, v)\<close> has been processed, the domain of \<open>n\<close> and
  the (at most singleton) domain of \<open>v\<close> are disjoint, and shrinking keeps them
  so; a second run then revises nothing.\<close>

definition seeds_done :: "pos list \<Rightarrow> pos \<Rightarrow> nat \<Rightarrow> dgrid \<Rightarrow> (pos \<times> pos) list \<Rightarrow> bool" where
  "seeds_done vars v x d q \<longleftrightarrow> set (elems (dget d v)) \<subseteq> {x} \<and>
     (\<forall>n \<in> set (neighbours vars v). (n, v) \<in> set q \<or>
        set (elems (dget d n)) \<inter> set (elems (dget d v)) = {})"

lemma revise_None_disjoint:
  "find (has (dget d b)) (elems (dget d a)) = None \<Longrightarrow>
     set (elems (dget d a)) \<inter> set (elems (dget d b)) = {}"
  by (auto simp: find_None_iff has_elems)

lemma revise_seed_disjoint:
  assumes "set (elems (dget d v)) \<subseteq> {x}" "n \<noteq> v" "revise n v d = (r, d')"
  shows "set (elems (dget d' n)) \<inter> set (elems (dget d' v)) = {}"
proof (cases "find (has (dget d v)) (elems (dget d n))")
  case None
  with assms(3) show ?thesis by (simp add: revise_def revise_None_disjoint)
next
  case (Some y)
  then have "y \<in> set (elems (dget d n))" "has (dget d v) y" by (auto simp: find_Some_iff)
  with assms(1) have y: "y = x" "y \<in> set (elems (dget d n))" by (auto simp: has_elems)
  then obtain xs where xs: "dget d n = DSet xs" by (cases "dget d n") auto
  then have inr: "in_range d n" by (cases "in_range d n") (auto simp: dget_def)
  from Some assms(3) xs have "d' = upd d n (DSet (removeAll y xs))" by (simp add: revise_def)
  with inr assms(1,2) y show ?thesis by (auto simp: dget_upd)
qed

lemma shrinks_disjoint:
  "shrinks d d' \<Longrightarrow> set (elems (dget d a)) \<inter> set (elems (dget d b)) = {} \<Longrightarrow>
     set (elems (dget d' a)) \<inter> set (elems (dget d' b)) = {}"
  using shrinks_elems [of d d' a] shrinks_elems [of d d' b] by blast

lemma ac3_loop_seeds_done:
  "seeds_done vars v x d q \<Longrightarrow> ac3_loop vars q d = Some d' \<Longrightarrow> seeds_done vars v x d' []"
proof (induction vars q d rule: ac3_loop.induct)
  case (1 vars d)
  then show ?case by simp
next
  case (2 vars a b q d)
  obtain r d1 where rv: "revise a b d = (r, d1)" by fastforce
  have sh: "shrinks d d1" using rv by (rule revise_shrinks)
  have v1: "set (elems (dget d1 v)) \<subseteq> {x}"
    using "2.prems"(1) shrinks_elems [OF sh, of v] by (auto simp: seeds_done_def)
  have keep: "seeds_done vars v x d1 q'" if "set q \<subseteq> set q'" for q'
    unfolding seeds_done_def
  proof (intro conjI ballI v1)
    fix n assume n: "n \<in> set (neighbours vars v)"
    show "(n, v) \<in> set q' \<or> set (elems (dget d1 n)) \<inter> set (elems (dget d1 v)) = {}"
    proof (cases "(n, v) = (a, b)")
      case True
      have "n \<noteq> v" using n by auto
      moreover have "set (elems (dget d v)) \<subseteq> {x}" using "2.prems"(1) by (simp add: seeds_done_def)
      ultimately show ?thesis using True rv revise_seed_disjoint by blast
    next
      case False
      with n "2.prems"(1) have "(n, v) \<in> set q \<or> set (elems (dget d n)) \<inter> set (elems (dget d v)) = {}"
        by (auto simp: seeds_done_def)
      with that sh show ?thesis using shrinks_disjoint by blast
    qed
  qed
  show ?case
  proof (cases r)
    case False
    with rv have "d1 = d" by (auto dest: revise_dsize)
    with False rv "2.prems"(2) keep [of q] "2.IH"(2) [OF rv [symmetric] refl False] show ?thesis
      by simp
  next
    case True
    let ?q' = "q @ (if size_of (dget d1 a) = Some 1
                    then map (\<lambda>c. (c, a)) (filter (\<lambda>c. c \<noteq> b) (neighbours vars a)) else [])"
    from True rv "2.prems"(2) have nz: "size_of (dget d1 (fst a, fst b)) \<noteq> Some 0"
      and loop: "ac3_loop vars ?q' d1 = Some d'"
      by (simp_all add: split: if_splits)
    from keep [of ?q'] "2.IH"(1) [OF rv [symmetric] refl True nz] loop show ?thesis by simp
  qed
qed

lemma ac3_loop_disjoint_noop:
  "(\<forall>(a, b) \<in> set q. set (elems (dget d a)) \<inter> set (elems (dget d b)) = {}) \<Longrightarrow>
     ac3_loop vars q d = Some d"
proof (induction q)
  case Nil
  then show ?case by simp
next
  case (Cons ab q)
  obtain a b where ab: "ab = (a, b)" by (rule prod.exhaust)
  with Cons.prems have "find (has (dget d b)) (elems (dget d a)) = None"
    by (auto simp: find_None_iff has_elems)
  with Cons ab show ?case by (simp add: revise_def)
qed

text \<open>\<open>revise\<close> writes only the domain of \<open>a\<close>; an emptied domain stays empty.\<close>

lemma revise_frame: "revise a b d = (r, d') \<Longrightarrow> q \<noteq> a \<Longrightarrow> dget d' q = dget d q"
  by (cases "in_range d a")
    (auto simp: revise_def dget_upd upd_out split: option.splits)

lemma shrinks_empty: "shrinks d d' \<Longrightarrow> dget d p = DSet [] \<Longrightarrow> dget d' p = DSet []"
  unfolding shrinks_def by (metis entry_le_DSet entry_le_elems elems.simps(1) subset_empty set_empty)

section \<open>Properties\<close>

text \<open>C3. AC-3 keeps every solution: if the domains admit a solution \<open>\<sigma>\<close> of
  the constraints (every variable's domain holds its value under \<open>\<sigma>\<close>), only
  variables hold a \<open>Set\<close> (true of every state the constructor and the
  search build), and the assigned cell's domain is at most \<open>{\<sigma> v}\<close>, then
  \<open>ac3\<close> succeeds, only removes candidates, and the domains still admit
  \<open>\<sigma>\<close>.\<close>

theorem ac3_keeps_solutions:
  assumes "admits \<sigma> vars d" and "sets_only_vars vars d" and "sol_distinct vars \<sigma>"
    and "v \<in> set vars" and "v \<in> set cells" and "set (elems (dget d v)) \<subseteq> {\<sigma> v}"
  shows "\<exists>d'. ac3 vars v d = Some d' \<and> admits \<sigma> vars d' \<and> shrinks d d'"
  using ac3_complete [OF assms] ac3_shrinks by blast

theorem ac3_keeps_solutions_witness:
  "admits (\<lambda>p. if p = (0, 0) then 1 else 2) [(0, 0), (0, 1)]
     (upd (upd (replicate 9 (replicate 9 (DNum 5))) (0, 0) (DSet [1])) (0, 1) (DSet [1, 2])) \<and>
   sets_only_vars [(0, 0), (0, 1)]
     (upd (upd (replicate 9 (replicate 9 (DNum 5))) (0, 0) (DSet [1])) (0, 1) (DSet [1, 2])) \<and>
   sol_distinct [(0, 0), (0, 1)] (\<lambda>p. if p = (0, 0) then 1 else 2) \<and>
   (\<exists>d'. ac3 [(0, 0), (0, 1)] (0, 0)
       (upd (upd (replicate 9 (replicate 9 (DNum 5))) (0, 0) (DSet [1])) (0, 1) (DSet [1, 2])) = Some d' \<and>
     admits (\<lambda>p. if p = (0, 0) then 1 else 2) [(0, 0), (0, 1)] d')"
proof -
  let ?d = "upd (upd (replicate 9 (replicate 9 (DNum 5))) (0, 0) (DSet [1])) (0, 1) (DSet [1, 2])"
  let ?\<sigma> = "\<lambda>p::pos. if p = (0, 0) then 1 else (2::nat)"
  have h1: "admits ?\<sigma> [(0, 0), (0, 1)] ?d" by code_simp
  have h2: "sets_only_vars [(0, 0), (0, 1)] ?d" by code_simp
  have h3: "sol_distinct [(0, 0), (0, 1)] ?\<sigma>" by code_simp
  have h4: "(0, 0) \<in> set [(0::nat, 0::nat), (0, 1)]" "(0::nat, 0::nat) \<in> set cells" by code_simp+
  have h5: "set (elems (dget ?d (0, 0))) \<subseteq> {?\<sigma> (0, 0)}" by code_simp
  show ?thesis using ac3_keeps_solutions [OF h1 h2 h3 h4 h5] h1 h2 h3 by blast
qed

text \<open>C6. Re-running AC-3 from a cell whose domain is a singleton changes
  nothing: after one run the domains are arc-consistent for the seed arcs.\<close>

theorem ac3_idempotent:
  assumes "size_of (dget d v) = Some 1" and "ac3 vars v d = Some d'"
  shows "ac3 vars v d' = Some d'"
proof -
  from assms(1) obtain x where x: "dget d v = DSet [x]"
    by (auto dest!: size_of_Some simp: length_Suc_conv)
  then have "seeds_done vars v x d (map (\<lambda>n. (n, v)) (neighbours vars v))"
    by (simp add: seeds_done_def)
  then have "seeds_done vars v x d' []"
    using assms(2) unfolding ac3_def by (rule ac3_loop_seeds_done)
  then have "\<forall>(a, b) \<in> set (map (\<lambda>n. (n, v)) (neighbours vars v)).
      set (elems (dget d' a)) \<inter> set (elems (dget d' b)) = {}"
    by (auto simp: seeds_done_def)
  then show ?thesis unfolding ac3_def by (rule ac3_loop_disjoint_noop)
qed

theorem ac3_idempotent_witness:
  "size_of (dget (upd (upd (replicate 9 (replicate 9 (DNum 5))) (0, 0) (DSet [1])) (0, 1) (DSet [1, 2])) (0, 0)) = Some 1 \<and>
   ac3 [(0, 0), (0, 1)] (0, 0)
     (upd (upd (replicate 9 (replicate 9 (DNum 5))) (0, 0) (DSet [1])) (0, 1) (DSet [1, 2])) =
     Some (upd (upd (replicate 9 (replicate 9 (DNum 5))) (0, 0) (DSet [1])) (0, 1) (DSet [2])) \<and>
   ac3 [(0, 0), (0, 1)] (0, 0)
     (upd (upd (replicate 9 (replicate 9 (DNum 5))) (0, 0) (DSet [1])) (0, 1) (DSet [2])) =
     Some (upd (upd (replicate 9 (replicate 9 (DNum 5))) (0, 0) (DSet [1])) (0, 1) (DSet [2]))"
proof -
  let ?d = "upd (upd (replicate 9 (replicate 9 (DNum 5))) (0, 0) (DSet [1])) (0, 1) (DSet [1, 2])"
  let ?d' = "upd (upd (replicate 9 (replicate 9 (DNum 5))) (0, 0) (DSet [1])) (0, 1) (DSet [2])"
  have h1: "size_of (dget ?d (0, 0)) = Some 1" by code_simp
  have h2: "ac3 [(0, 0), (0, 1)] (0, 0) ?d = Some ?d'" by code_simp
  show ?thesis using ac3_idempotent [OF h1 h2] h1 h2 by simp
qed

text \<open>C10. One call of \<open>revise(a, b)\<close> on a duplicate-free domain of \<open>a\<close>:
  it reports a change exactly when some candidate of \<open>a\<close> is in the domain of
  \<open>b\<close>; a change removes exactly one candidate of \<open>a\<close>, one that \<open>b\<close> has, and
  touches no other cell; no change leaves the domains as they were.\<close>

theorem revise_removes_one:
  assumes "distinct (elems (dget d a))" and "revise a b d = (r, d')"
  shows "(r \<longleftrightarrow> (\<exists>v \<in> set (elems (dget d a)). has (dget d b) v)) \<and>
    (r \<longrightarrow> dsize d' + 1 = dsize d \<and>
      (\<exists>v. has (dget d b) v \<and> dget d' a = DSet (remove1 v (elems (dget d a)))) \<and>
      (\<forall>q. q \<noteq> a \<longrightarrow> dget d' q = dget d q)) \<and>
    (\<not> r \<longrightarrow> d' = d)"
proof (cases "find (has (dget d b)) (elems (dget d a))")
  case None
  with assms show ?thesis by (auto simp: revise_def find_None_iff)
next
  case (Some v)
  then have v: "v \<in> set (elems (dget d a))" "has (dget d b) v" by (auto simp: find_Some_iff)
  then have inr: "in_range d a" by (cases "in_range d a") (auto simp: dget_def)
  have rm: "removeAll v (elems (dget d a)) = remove1 v (elems (dget d a))"
    using assms(1) by (simp add: distinct_remove1_removeAll)
  have "length (remove1 v (elems (dget d a))) + 1 = length (elems (dget d a))"
    using v(1) by (simp add: length_remove1) (metis Suc_pred length_pos_if_in_set)
  with dsize_upd [OF inr, of "DSet (remove1 v (elems (dget d a)))"]
  have "dsize (upd d a (DSet (remove1 v (elems (dget d a))))) + 1 = dsize d" by simp
  with Some assms(2) v inr rm show ?thesis by (auto simp: revise_def dget_upd)
qed

theorem revise_removes_one_witness:
  "distinct (elems (dget (upd (upd (replicate 9 (replicate 9 DNull)) (0, 0) (DSet [3, 5, 7])) (0, 1) (DSet [5, 7])) (0, 0))) \<and>
   revise (0, 0) (0, 1) (upd (upd (replicate 9 (replicate 9 DNull)) (0, 0) (DSet [3, 5, 7])) (0, 1) (DSet [5, 7])) =
     (True, upd (upd (replicate 9 (replicate 9 DNull)) (0, 0) (DSet [3, 7])) (0, 1) (DSet [5, 7])) \<and>
   dsize (upd (upd (replicate 9 (replicate 9 DNull)) (0, 0) (DSet [3, 7])) (0, 1) (DSet [5, 7])) + 1 =
   dsize (upd (upd (replicate 9 (replicate 9 DNull)) (0, 0) (DSet [3, 5, 7])) (0, 1) (DSet [5, 7]))"
proof -
  let ?d = "upd (upd (replicate 9 (replicate 9 DNull)) (0, 0) (DSet [3, 5, 7])) (0, 1) (DSet [5, 7])"
  let ?d' = "upd (upd (replicate 9 (replicate 9 DNull)) (0, 0) (DSet [3, 7])) (0, 1) (DSet [5, 7])"
  have di: "distinct (elems (dget ?d (0, 0)))" by code_simp
  have rv: "revise (0, 0) (0, 1) ?d = (True, ?d')" by code_simp
  show ?thesis using revise_removes_one [OF di rv] di rv by simp
qed

text \<open>C15. The emptiness test of line 205 reads \<open>domains[a[0]][b[0]]\<close>, not
  \<open>domains[a[0]][a[1]]\<close>. Whenever \<open>revise(a, b)\<close> empties the domain of
  \<open>a\<close> and the cell \<open>(a[0], b[0])\<close> is another cell that does not hold an
  empty \<open>Set\<close>, the loop goes on with the rest of the queue instead of
  failing, and every result it returns still has the empty domain at \<open>a\<close>:
  \<open>ac3\<close> reports success with a variable that has no candidate, where the
  specification (step 3) requires failure.\<close>

theorem ac3_keeps_emptied_domain:
  assumes rv: "revise a b d = (True, d')" and empty: "dget d' a = DSet []"
    and other: "(fst a, fst b) \<noteq> a" and ne: "size_of (dget d (fst a, fst b)) \<noteq> Some 0"
  shows "ac3_loop vars ((a, b) # q) d = ac3_loop vars q d' \<and>
    (\<forall>d''. ac3_loop vars q d' = Some d'' \<longrightarrow> dget d'' a = DSet [])"
proof
  have "size_of (dget d' (fst a, fst b)) \<noteq> Some 0" using revise_frame [OF rv other] ne by simp
  then show "ac3_loop vars ((a, b) # q) d = ac3_loop vars q d'"
    using rv empty by simp
  show "\<forall>d''. ac3_loop vars q d' = Some d'' \<longrightarrow> dget d'' a = DSet []"
    using empty by (blast intro: shrinks_empty ac3_loop_shrinks)
qed

theorem ac3_keeps_emptied_domain_witness:
  "revise (0, 1) (0, 0) (upd (upd (replicate 9 (replicate 9 (DNum 1))) (0, 0) (DSet [5])) (0, 1) (DSet [5])) =
     (True, upd (upd (replicate 9 (replicate 9 (DNum 1))) (0, 0) (DSet [5])) (0, 1) (DSet [])) \<and>
   dget (upd (upd (replicate 9 (replicate 9 (DNum 1))) (0, 0) (DSet [5])) (0, 1) (DSet [])) (0, 1) = DSet [] \<and>
   (fst (0::nat, 1::nat), fst (0::nat, 0::nat)) \<noteq> (0, 1) \<and>
   size_of (dget (upd (upd (replicate 9 (replicate 9 (DNum 1))) (0, 0) (DSet [5])) (0, 1) (DSet [5])) (0, 0)) \<noteq> Some 0 \<and>
   ac3 [(0, 0), (0, 1)] (0, 0) (upd (upd (replicate 9 (replicate 9 (DNum 1))) (0, 0) (DSet [5])) (0, 1) (DSet [5])) =
     Some (upd (upd (replicate 9 (replicate 9 (DNum 1))) (0, 0) (DSet [5])) (0, 1) (DSet []))"
proof -
  let ?d = "upd (upd (replicate 9 (replicate 9 (DNum 1))) (0, 0) (DSet [5])) (0, 1) (DSet [5])"
  let ?d' = "upd (upd (replicate 9 (replicate 9 (DNum 1))) (0, 0) (DSet [5])) (0, 1) (DSet [])"
  have rv: "revise (0, 1) (0, 0) ?d = (True, ?d')" by code_simp
  have e: "dget ?d' (0, 1) = DSet []" by code_simp
  have o: "(fst (0::nat, 1::nat), fst (0::nat, 0::nat)) \<noteq> (0, 1)" by simp
  have ne: "size_of (dget ?d (fst (0::nat, 1::nat), fst (0::nat, 0::nat))) \<noteq> Some 0" by code_simp
  have nb: "neighbours [(0, 0), (0, 1)] (0, 0) = [(0, 1)]" by code_simp
  have "ac3_loop [(0, 0), (0, 1)] [((0, 1), (0, 0))] ?d = ac3_loop [(0, 0), (0, 1)] [] ?d'"
    using ac3_keeps_emptied_domain [OF rv e o ne] by blast
  moreover have "ac3 [(0, 0), (0, 1)] (0, 0) ?d = ac3_loop [(0, 0), (0, 1)] [((0, 1), (0, 0))] ?d"
    unfolding ac3_def nb by (simp del: ac3_loop.simps)
  ultimately have "ac3 [(0, 0), (0, 1)] (0, 0) ?d = Some ?d'" by simp
  with rv e o ne show ?thesis by simp
qed

end
