(* ===== verification/Select.thy ===== *)
theory Select
  imports Neighbours
begin

text \<open>
  Variable selection: \<open>unassigned_variable\<close> (src/javascript/sudoku.js lines
  107-140). It scans the cells whose value is \<open>null\<close> in row-major order,
  keeping a running minimum \<open>mrv\<close> of the domain sizes (initially 10) and a
  running maximum \<open>degree\<close> of neighbour counts (initially 0). A cell whose
  domain size is \<open><= mrv\<close> always becomes the candidate; the degree test only
  repeats that assignment. The lemmas show that the result is the last cell in
  scan order among those of minimum domain size, whatever the degrees.
\<close>

section \<open>Definitions\<close>

text \<open>\<open>values[i][j] === null\<close>; an out-of-range read is \<open>undefined\<close>, not
  \<open>null\<close>.\<close>

definition is_null :: "grid \<Rightarrow> pos \<Rightarrow> bool" where
  "is_null g p \<longleftrightarrow> in_range g p \<and> at g p = None"

definition unassigned_cells :: "grid \<Rightarrow> pos list" where
  "unassigned_cells g = filter (is_null g) cells"

text \<open>The loop of lines 127-138. \<open>domains[x][y].size <= mrv\<close> is false when the
  size is \<open>undefined\<close>.\<close>

fun mrv_scan :: "pos list \<Rightarrow> dgrid \<Rightarrow> pos list \<Rightarrow> nat \<Rightarrow> nat \<Rightarrow> pos option \<Rightarrow> pos option" where
  "mrv_scan vars d [] mrv degree candidate = candidate"
| "mrv_scan vars d (v # vs) mrv degree candidate =
     (case size_of (dget d v) of
        None \<Rightarrow> mrv_scan vars d vs mrv degree candidate
      | Some s \<Rightarrow>
          (if s \<le> mrv then
             (let n = length (neighbours vars v) in
              if degree < n then mrv_scan vars d vs s n (Some v)
              else mrv_scan vars d vs s degree (Some v))
           else mrv_scan vars d vs mrv degree candidate))"

definition unassigned_variable :: "pos list \<Rightarrow> grid \<Rightarrow> dgrid \<Rightarrow> pos option" where
  "unassigned_variable vars vals d = mrv_scan vars d (unassigned_cells vals) 10 0 None"

section \<open>What the scan computes\<close>

text \<open>The reference: among the unassigned cells whose domain is a \<open>Set\<close> of at
  most 10 candidates, the last one (in row-major order) of minimum size.\<close>

definition size_key :: "dgrid \<Rightarrow> pos \<Rightarrow> nat" where
  "size_key d v = (case size_of (dget d v) of Some s \<Rightarrow> s | None \<Rightarrow> 0)"

definition fits :: "dgrid \<Rightarrow> nat \<Rightarrow> pos \<Rightarrow> bool" where
  "fits d m v \<longleftrightarrow> (case size_of (dget d v) of Some s \<Rightarrow> s \<le> m | None \<Rightarrow> False)"

definition last_min :: "dgrid \<Rightarrow> pos list \<Rightarrow> pos option" where
  "last_min d cs =
     (if cs = [] then None
      else Some (last (filter (\<lambda>v. size_key d v = Min (size_key d ` set cs)) cs)))"

definition mrv_choice :: "grid \<Rightarrow> dgrid \<Rightarrow> pos option" where
  "mrv_choice vals d = last_min d (filter (fits d 10) (unassigned_cells vals))"

lemma last_filter_min_cons:
  fixes k :: "'a \<Rightarrow> nat" and v :: 'a and rest :: "'a list"
  defines "rs \<equiv> filter (\<lambda>w. k w \<le> k v) rest"
  shows "last (filter (\<lambda>w. k w = Min (k ` set (v # rest))) (v # rest)) =
         (if rs = [] then v else last (filter (\<lambda>w. k w = Min (k ` set rs)) rs))"
proof (cases "rs = []")
  case True
  then have gt: "\<forall>w \<in> set rest. k v < k w" by (auto simp: rs_def filter_empty_conv)
  then have "Min (k ` set (v # rest)) = k v"
    by (intro Min_eqI) auto
  moreover have "filter (\<lambda>w. k w = k v) rest = []"
    using gt by (auto simp: filter_empty_conv)
  ultimately show ?thesis using True by simp
next
  case False
  let ?M = "Min (k ` set rs)"
  have M_in: "?M \<in> k ` set rs" using False by (intro Min_in) auto
  have M_le: "\<And>w. w \<in> set rs \<Longrightarrow> ?M \<le> k w" by (intro Min_le) auto
  have Mv: "?M \<le> k v" using M_in by (auto simp: rs_def)
  have "Min (k ` set (v # rest)) = ?M"
  proof (rule Min_eqI)
    show "finite (k ` set (v # rest))" by simp
    show "?M \<in> k ` set (v # rest)" using M_in by (auto simp: rs_def)
    fix y assume "y \<in> k ` set (v # rest)"
    then obtain w where w: "w \<in> set (v # rest)" "y = k w" by blast
    show "?M \<le> y"
    proof (cases "w \<in> set rs")
      case True
      with M_le w show ?thesis by simp
    next
      case False
      with w Mv show ?thesis by (auto simp: rs_def)
    qed
  qed
  moreover have "filter (\<lambda>w. k w = ?M) rest = filter (\<lambda>w. k w = ?M) rs"
    using Mv by (auto simp: rs_def intro: filter_cong)
  moreover have "filter (\<lambda>w. k w = ?M) rs \<noteq> []"
    using M_in by (auto simp: filter_empty_conv)
  ultimately show ?thesis using False by (simp add: last_append)
qed

lemma fits_le:
  "size_of (dget d v) = Some s \<Longrightarrow> s \<le> m \<Longrightarrow>
     filter (fits d s) vs = filter (\<lambda>w. size_key d w \<le> size_key d v) (filter (fits d m) vs)"
  by (auto simp: fits_def size_key_def intro: filter_cong split: option.splits)

lemma mrv_scan_last_min:
  "mrv_scan vars d vs m deg c =
     (case last_min d (filter (fits d m) vs) of None \<Rightarrow> c | Some v \<Rightarrow> Some v)"
proof (induction vars d vs m deg c rule: mrv_scan.induct)
  case (1 vars d mrv degree candidate)
  then show ?case by (simp add: last_min_def)
next
  case (2 vars d v vs mrv degree candidate)
  show ?case
  proof (cases "size_of (dget d v)")
    case None
    with "2.IH"(1) show ?thesis by (simp add: fits_def)
  next
    case (Some s)
    show ?thesis
    proof (cases "s \<le> mrv")
      case le: True
      let ?rest = "filter (fits d mrv) vs"
      have fv: "fits d mrv v" and kv: "size_key d v = s"
        using Some le by (simp_all add: fits_def size_key_def)
      have "mrv_scan vars d (v # vs) mrv degree candidate =
          (case last_min d (filter (fits d s) vs) of None \<Rightarrow> Some v | Some w \<Rightarrow> Some w)"
        using Some le "2.IH"(2,3) [OF Some le refl]
        by (cases "degree < length (neighbours vars v)") (simp_all add: Let_def)
      also have "\<dots> = last_min d (v # ?rest)"
        using last_filter_min_cons [of "size_key d" v ?rest]
        by (simp add: last_min_def fits_le [OF Some le] kv split: if_splits)
      finally show ?thesis using fv by (simp add: last_min_def)
    next
      case False
      with Some "2.IH"(4) show ?thesis by (simp add: fits_def)
    qed
  qed
qed

section \<open>Properties\<close>

text \<open>C5. \<open>unassigned_variable\<close> returns the last cell, in row-major order,
  among the unassigned cells of minimum domain size (\<open>mrv_choice\<close>); the
  degree it tracks never changes the result.\<close>

theorem unassigned_variable_eq_mrv_choice:
  "unassigned_variable vars vals d = mrv_choice vals d"
  unfolding unassigned_variable_def mrv_choice_def mrv_scan_last_min
  by (simp split: option.splits)

end
