(* ===== verification/Grid.thy ===== *)
theory Grid
  imports Prelude
begin

text \<open>
  The grid and domain model: the constructor of class \<open>Sudoku\<close>
  (src/javascript/sudoku.js lines 6-60). It checks the 9x9 shape, collects the
  empty cells (the variables) in row-major order, and gives every variable the
  candidates 1-9 minus the values already in its row, column and block (node
  consistency). The theory also states what a solution of the puzzle is.
\<close>

section \<open>State\<close>

text \<open>The exception the constructor throws: \<open>"Sudoku grid must be 9x9."\<close>.\<close>

datatype sudoku_error = GridNot9x9

text \<open>The fields of a \<open>Sudoku\<close> object (\<open>values\<close> is a keyword of Isabelle,
  hence \<open>values_grid\<close>).\<close>

record sudoku =
  explored :: nat
  variables :: "pos list"
  values_grid :: grid
  domains :: dgrid

section \<open>Constructor\<close>

text \<open>\<open>!grid[i][j]\<close>: \<open>null\<close> and \<open>0\<close> are falsy.\<close>

definition falsy :: "nat option \<Rightarrow> bool" where
  "falsy c \<longleftrightarrow> c = None \<or> c = Some 0"

definition grid_variables :: "grid \<Rightarrow> pos list" where
  "grid_variables g = filter (\<lambda>p. falsy (at g p)) cells"

text \<open>\<open>if (D.has(c)) D.delete(c)\<close>; \<open>null\<close> is never a member.\<close>

definition js_delete :: "nat list \<Rightarrow> nat option \<Rightarrow> nat list" where
  "js_delete D c = (case c of None \<Rightarrow> D | Some k \<Rightarrow> if k \<in> set D then removeAll k D else D)"

text \<open>Lines 35-58: start from \<open>new Set([1, ..., 9])\<close> and delete the value of
  every other cell of the row, then of the column, then of the block.\<close>

definition init_domain :: "grid \<Rightarrow> pos \<Rightarrow> nat list" where
  "init_domain g p = fold (\<lambda>q D. js_delete D (at g q)) (peer_cells p) [1..<10]"

text \<open>\<open>structuredClone(grid)\<close>: numbers and \<open>null\<close> are copied as they are.\<close>

definition clone_entry :: "nat option \<Rightarrow> dentry" where
  "clone_entry c = (case c of None \<Rightarrow> DNull | Some k \<Rightarrow> DNum k)"

definition init_domains :: "grid \<Rightarrow> pos list \<Rightarrow> dgrid" where
  "init_domains g vs =
     fold (\<lambda>p d. upd d p (DSet (init_domain g p))) vs (map (map clone_entry) g)"

definition make_sudoku :: "grid \<Rightarrow> sudoku_error + sudoku" where
  "make_sudoku g =
     (if length g \<noteq> 9 then Inl GridNot9x9
      else if \<not> list_all (\<lambda>i. length (g ! i) = 9) [0..<9] then Inl GridNot9x9
      else let vs = grid_variables g in
        Inr \<lparr>explored = 0, variables = vs, values_grid = g, domains = init_domains g vs\<rparr>)"

section \<open>Solutions\<close>

definition digit :: "nat option \<Rightarrow> bool" where
  "digit c \<longleftrightarrow> (case c of None \<Rightarrow> False | Some k \<Rightarrow> 1 \<le> k \<and> k \<le> 9)"

text \<open>A solved puzzle: 9x9, a digit in every cell, and no two peers equal.\<close>

definition sudoku_solution :: "grid \<Rightarrow> bool" where
  "sudoku_solution r \<longleftrightarrow> shape9 r \<and> list_all (\<lambda>p. digit (at r p)) cells \<and>
     list_all (\<lambda>p. list_all (\<lambda>q. at r p \<noteq> at r q) (peer_cells p)) cells"

text \<open>\<open>r\<close> keeps every given value of \<open>g\<close>.\<close>

definition extends :: "grid \<Rightarrow> grid \<Rightarrow> bool" where
  "extends g r \<longleftrightarrow> list_all (\<lambda>p. at g p \<noteq> None \<longrightarrow> at r p = at g p) cells"

text \<open>A well-formed puzzle: 9x9, every given value a digit, no two given peers
  equal. The spec leaves the solver's behaviour on other inputs open.\<close>

definition well_formed :: "grid \<Rightarrow> bool" where
  "well_formed g \<longleftrightarrow> shape9 g \<and> list_all (\<lambda>p. at g p = None \<or> digit (at g p)) cells \<and>
     list_all (\<lambda>p. list_all (\<lambda>q. at g p = None \<or> at g p \<noteq> at g q) (peer_cells p)) cells"

section \<open>Lemmas\<close>

lemma make_sudoku_shape: "(\<exists>s. make_sudoku g = Inr s) \<longleftrightarrow> shape9 g"
  by (auto simp: make_sudoku_def shape9_def list_all_length Let_def)

lemma make_sudoku_Inr:
  "make_sudoku g = Inr s \<Longrightarrow>
     s = \<lparr>explored = 0, variables = grid_variables g, values_grid = g,
          domains = init_domains g (grid_variables g)\<rparr>"
  by (auto simp: make_sudoku_def Let_def split: if_splits)

lemma set_grid_variables:
  "set (grid_variables g) = {p \<in> set cells. falsy (at g p)}"
  by (auto simp: grid_variables_def)

lemma distinct_grid_variables: "distinct (grid_variables g)"
  by (simp add: grid_variables_def distinct_cells)

lemma js_delete_filter: "js_delete D c = filter (\<lambda>k. Some k \<noteq> c) D"
proof (cases c)
  case (Some k)
  have "removeAll k D = filter (\<lambda>x. Some x \<noteq> Some k) D" by (induction D) auto
  moreover have "k \<notin> set D \<Longrightarrow> D = filter (\<lambda>x. Some x \<noteq> Some k) D" by (induction D) auto
  ultimately show ?thesis using Some by (simp add: js_delete_def)
qed (simp add: js_delete_def)

lemma fold_js_delete:
  "fold (\<lambda>q D. js_delete D (at g q)) qs D = filter (\<lambda>k. Some k \<notin> at g ` set qs) D"
  by (induction qs arbitrary: D) (auto simp: js_delete_filter intro: filter_cong)

lemma init_domain_eq:
  "init_domain g p = filter (\<lambda>k. Some k \<notin> at g ` set (peer_cells p)) [1..<10]"
  by (simp add: init_domain_def fold_js_delete)

lemma dget_init_domains:
  assumes "shape9 g" "set vs \<subseteq> set cells" "p \<in> set cells"
  shows "dget (init_domains g vs) p =
           (if p \<in> set vs then DSet (init_domain g p) else clone_entry (at g p))"
proof -
  have sh: "shape9 (map (map clone_entry) g)"
    using assms(1) by (simp add: shape9_def list_all_length)
  then have "\<forall>q \<in> set vs. in_range (map (map clone_entry) g) q"
    using assms(2) by auto
  then have "dget (init_domains g vs) p =
      (if p \<in> set vs then DSet (init_domain g p) else dget (map (map clone_entry) g) p)"
    unfolding init_domains_def by (rule dget_fold_upd)
  moreover have "dget (map (map clone_entry) g) p = clone_entry (at g p)"
    using sh assms(1,3) by (cases p) (simp add: dget_def at_def shape9_nth_length shape9_def in_cells)
  ultimately show ?thesis by simp
qed

lemma list_all_peer_cells:
  "p \<in> set cells \<Longrightarrow> list_all P (peer_cells p) \<longleftrightarrow> (\<forall>q \<in> set cells. peer p q \<longrightarrow> P q)"
  by (auto simp: list_all_iff set_peer_cells)

lemma well_formed_iff:
  "well_formed g \<longleftrightarrow> shape9 g \<and> (\<forall>p \<in> set cells. at g p = None \<or> digit (at g p)) \<and>
     (\<forall>p \<in> set cells. \<forall>q \<in> set cells. peer p q \<longrightarrow> at g p = None \<or> at g p \<noteq> at g q)"
  unfolding well_formed_def list_all_iff [of _ cells]
  by (auto simp: list_all_peer_cells)

lemma sudoku_solution_iff:
  "sudoku_solution r \<longleftrightarrow> shape9 r \<and> (\<forall>p \<in> set cells. digit (at r p)) \<and>
     (\<forall>p \<in> set cells. \<forall>q \<in> set cells. peer p q \<longrightarrow> at r p \<noteq> at r q)"
  unfolding sudoku_solution_def list_all_iff [of _ cells]
  by (auto simp: list_all_peer_cells)

lemma extends_iff:
  "extends g r \<longleftrightarrow> (\<forall>p \<in> set cells. at g p \<noteq> None \<longrightarrow> at r p = at g p)"
  by (simp add: extends_def list_all_iff)

lemma digit_Some [simp]: "digit (Some k) \<longleftrightarrow> 1 \<le> k \<and> k \<le> 9"
  by (simp add: digit_def)

lemma digit_not_None: "digit c \<Longrightarrow> c \<noteq> None"
  by (auto simp: digit_def split: option.splits)

lemma well_formed_variables:
  "well_formed g \<Longrightarrow> set (grid_variables g) = {p \<in> set cells. at g p = None}"
  by (auto simp: set_grid_variables well_formed_iff falsy_def digit_def)

lemma init_domain_mem:
  "p \<in> set cells \<Longrightarrow> k \<in> set (init_domain g p) \<longleftrightarrow>
     1 \<le> k \<and> k \<le> 9 \<and> (\<forall>q \<in> set cells. peer p q \<longrightarrow> at g q \<noteq> Some k)"
proof -
  assume p: "p \<in> set cells"
  have "Some k \<notin> at g ` set (peer_cells p) \<longleftrightarrow> (\<forall>q \<in> set cells. peer p q \<longrightarrow> at g q \<noteq> Some k)"
    unfolding set_peer_cells [OF p] image_iff by (metis (mono_tags, lifting) mem_Collect_eq)
  then show ?thesis by (auto simp: init_domain_eq)
qed

lemma distinct_init_domain: "distinct (init_domain g p)"
  by (simp add: init_domain_eq)

lemma in_range_fold_upd:
  "in_range (fold (\<lambda>q d. upd d q (f q)) ps d) p = in_range d p"
  by (induction ps arbitrary: d) simp_all

lemma in_range_init_domains:
  "shape9 g \<Longrightarrow> p \<in> set cells \<Longrightarrow> in_range (init_domains g vs) p"
  by (simp add: init_domains_def in_range_fold_upd shape9_def list_all_length)

section \<open>Properties\<close>

text \<open>C12. The constructor throws \<open>"Sudoku grid must be 9x9."\<close> exactly when the
  grid does not have 9 rows of 9 cells.\<close>

theorem make_sudoku_error:
  "make_sudoku g = Inl e \<longleftrightarrow> \<not> shape9 g \<and> e = GridNot9x9"
  by (auto simp: make_sudoku_def shape9_def list_all_length Let_def)

text \<open>C7. Node consistency: the initial domain of a cell lists, in ascending
  order, exactly the digits 1-9 that no other cell of its row, column or block
  holds.\<close>

theorem init_domain_node_consistent:
  assumes "p \<in> set cells"
  shows "init_domain g p = filter (\<lambda>k. \<forall>q \<in> set cells. peer p q \<longrightarrow> at g q \<noteq> Some k) [1..<10]"
proof -
  have "\<And>k. Some k \<notin> at g ` set (peer_cells p) \<longleftrightarrow>
      (\<forall>q \<in> set cells. peer p q \<longrightarrow> at g q \<noteq> Some k)"
    unfolding set_peer_cells [OF assms] image_iff by (metis (mono_tags, lifting) mem_Collect_eq)
  then show ?thesis by (simp add: init_domain_eq)
qed

theorem init_domain_node_consistent_witness:
  "(0, 8) \<in> set cells \<and>
   init_domain (upd (replicate 9 (map Some [1, 2, 3, 4, 5, 6, 7, 8, 9])) (0, 8) None) (0, 8) =
   filter (\<lambda>k. \<forall>q \<in> set cells. peer (0, 8) q \<longrightarrow>
     at (upd (replicate 9 (map Some [1, 2, 3, 4, 5, 6, 7, 8, 9])) (0, 8) None) q \<noteq> Some k) [1..<10]"
proof -
  have c: "(0::nat, 8::nat) \<in> set cells" by code_simp
  show ?thesis using init_domain_node_consistent [OF c] c by simp
qed

end
