(* ===== verification/Search.thy ===== *)
theory Search
  imports AC3 Select Grid
begin

text \<open>
  The backtracking search: \<open>backtrack\<close> and \<open>solve\<close> (src/javascript/sudoku.js
  lines 62-105). \<open>backtrack values domains\<close> returns the grid when no cell is
  \<open>null\<close>; otherwise it counts one explored node, selects a cell \<open>v\<close> with
  \<open>unassigned_variable\<close> and tries the members of its domain in order, each on
  fresh copies of both arrays: assign, check \<open>consistent\<close>, narrow the domain
  of \<open>v\<close> to the value, run \<open>ac3\<close>, recurse. The first solution is returned.
  The loop over the domain is the mutually recursive \<open>try_values\<close>. The
  explored-node counter, a field of the object, is threaded through as a
  number. Recursion terminates because every recursive call has one \<open>null\<close>
  cell fewer.
  The inductive relation \<open>reach\<close> is the search tree as a step relation: the
  states \<open>backtrack\<close> is called with. The lemmas prove the search invariant
  preserved by a step, soundness and completeness of \<open>backtrack\<close> by
  computation induction, that the counter a call reports is its starting
  value plus a count independent of it, and that a returned grid has no
  \<open>null\<close> cell.
\<close>

section \<open>Definitions\<close>

text \<open>Line 78: \<open>values.every(row => row.every(cell => cell !== null))\<close>.\<close>

definition solved :: "grid \<Rightarrow> bool" where
  "solved vals \<longleftrightarrow> list_all (list_all (\<lambda>c. c \<noteq> None)) vals"

definition nulls :: "grid \<Rightarrow> nat" where
  "nulls g = length (unassigned_cells g)"

lemma is_null_upd:
  "in_range g v \<Longrightarrow> is_null (upd g v c) p = (if p = v then c = None else is_null g p)"
  by (auto simp: is_null_def at_upd)

lemma nulls_upd_Some:
  "nulls (upd g v (Some a)) = length (filter (\<lambda>p. is_null g p \<and> p \<noteq> v) cells)"
proof (cases "in_range g v")
  case True
  then have "filter (is_null (upd g v (Some a))) cells = filter (\<lambda>p. is_null g p \<and> p \<noteq> v) cells"
    by (intro filter_cong) (auto simp: is_null_upd)
  then show ?thesis by (simp add: nulls_def unassigned_cells_def)
next
  case False
  then have "filter (\<lambda>p. is_null g p \<and> p \<noteq> v) cells = filter (is_null g) cells"
    by (intro filter_cong) (auto simp: is_null_def)
  with False show ?thesis by (simp add: upd_out nulls_def unassigned_cells_def)
qed

lemma nulls_except_less:
  assumes "is_null g v" "v \<in> set cells"
  shows "length (filter (\<lambda>p. is_null g p \<and> p \<noteq> v) cells) < nulls g"
proof -
  have "length (filter (\<lambda>p. is_null g p \<and> p \<noteq> v) cells) =
      length (filter (\<lambda>p. p \<noteq> v) (unassigned_cells g))"
    by (simp add: unassigned_cells_def conj_commute)
  also have "\<dots> < length (unassigned_cells g)"
    using assms by (intro length_filter_less) (auto simp: unassigned_cells_def)
  finally show ?thesis by (simp add: nulls_def)
qed

lemma mrv_scan_in:
  "mrv_scan vars d vs m deg c = Some v \<Longrightarrow> v \<in> set vs \<or> c = Some v"
  by (induction vars d vs m deg c rule: mrv_scan.induct)
    (auto simp: Let_def split: option.splits if_splits)

lemma unassigned_variable_null:
  "unassigned_variable vars vals d = Some v \<Longrightarrow> is_null vals v \<and> v \<in> set cells"
  using mrv_scan_in [of vars d "unassigned_cells vals" 10 0 None v]
  by (auto simp: unassigned_variable_def unassigned_cells_def)

function backtrack :: "pos list \<Rightarrow> grid \<Rightarrow> dgrid \<Rightarrow> nat \<Rightarrow> grid option \<times> nat"
  and try_values :: "pos list \<Rightarrow> grid \<Rightarrow> dgrid \<Rightarrow> pos \<Rightarrow> nat list \<Rightarrow> nat \<Rightarrow> grid option \<times> nat"
where
  "backtrack vars vals d n =
     (if solved vals then (Some vals, n)
      else (case unassigned_variable vars vals d of
              None \<Rightarrow> (None, Suc n)
            | Some v \<Rightarrow> try_values vars vals d v (elems (dget d v)) (Suc n)))"
| "try_values vars vals d v [] n = (None, n)"
| "try_values vars vals d v (val # rest) n =
     (let new_values = upd vals v (Some val) in
      if consistent vars v new_values then
        (case ac3 vars v (upd d v (DSet [val])) of
           None \<Rightarrow> try_values vars vals d v rest n
         | Some new_domains \<Rightarrow>
             (case backtrack vars new_values new_domains n of
                (Some r, n') \<Rightarrow> (Some r, n')
              | (None, n') \<Rightarrow> try_values vars vals d v rest n'))
      else try_values vars vals d v rest n)"
  by pat_completeness auto
termination
  by (relation "measures
        [\<lambda>x. case x of Inl (vars, vals, d, n) \<Rightarrow> nulls vals
                    | Inr (vars, vals, d, v, vs, n) \<Rightarrow>
                        length (filter (\<lambda>p. is_null vals p \<and> p \<noteq> v) cells),
         \<lambda>x. case x of Inl _ \<Rightarrow> 0 | Inr (vars, vals, d, v, vs, n) \<Rightarrow> Suc (length vs)]")
    (auto simp: nulls_upd_Some dest!: unassigned_variable_null intro: nulls_except_less)

text \<open>\<open>solve(show_explored)\<close>, lines 62-70: the solution, or the pair of the
  solution and the explored counter, which stays in the object.\<close>

datatype solve_output = Solution "grid option" | SolutionExplored "grid option" nat

definition solve :: "bool \<Rightarrow> sudoku \<Rightarrow> solve_output \<times> sudoku" where
  "solve show_explored s =
     (let (solution, n) = backtrack (variables s) (values_grid s) (domains s) (explored s) in
      (if show_explored then SolutionExplored solution n else Solution solution,
       s\<lparr>explored := n\<rparr>))"

text \<open>The grid inside either shape of output.\<close>

definition solution_of :: "solve_output \<Rightarrow> grid option" where
  "solution_of out = (case out of Solution r \<Rightarrow> r | SolutionExplored r _ \<Rightarrow> r)"

text \<open>The search tree: the \<open>(values, domains)\<close> pairs \<open>backtrack\<close> is called
  with, from the constructor's state. A step is one iteration of the domain
  loop (lines 86-100) at the selected cell of an unsolved state whose value
  passes \<open>consistent\<close> and whose propagation by \<open>ac3\<close> succeeds.\<close>

inductive reach :: "grid \<Rightarrow> grid \<Rightarrow> dgrid \<Rightarrow> bool" for g0 :: grid where
  start: "reach g0 g0 (init_domains g0 (grid_variables g0))"
| assign: "reach g0 vals d \<Longrightarrow> \<not> solved vals \<Longrightarrow>
    unassigned_variable (grid_variables g0) vals d = Some v \<Longrightarrow>
    val \<in> set (elems (dget d v)) \<Longrightarrow>
    consistent (grid_variables g0) v (upd vals v (Some val)) \<Longrightarrow>
    ac3 (grid_variables g0) v (upd d v (DSet [val])) = Some d' \<Longrightarrow>
    reach g0 (upd vals v (Some val)) d'"

declare backtrack.simps(1) [simp del]

section \<open>The search invariant\<close>

text \<open>The domain of every variable is a duplicate-free \<open>Set\<close> inside its
  initial domain; every other cell keeps its cloned number.\<close>

definition dom_ok :: "grid \<Rightarrow> pos list \<Rightarrow> dgrid \<Rightarrow> bool" where
  "dom_ok g0 vars d \<longleftrightarrow> (\<forall>p \<in> set cells. in_range d p \<and>
     (if p \<in> set vars
      then (\<exists>xs. dget d p = DSet xs \<and> distinct xs \<and> set xs \<subseteq> set (init_domain g0 p))
      else dget d p = clone_entry (at g0 p)))"

text \<open>What holds of every \<open>(values, domains)\<close> pair \<open>backtrack\<close> is called
  with, for a well-formed input \<open>g0\<close>: the givens are kept, every assigned cell
  holds a digit, no two assigned peers agree, and the domains are as above.\<close>

definition search_inv :: "grid \<Rightarrow> grid \<Rightarrow> dgrid \<Rightarrow> bool" where
  "search_inv g0 vals d \<longleftrightarrow> well_formed g0 \<and> shape9 vals \<and>
     (\<forall>p \<in> set cells. at g0 p \<noteq> None \<longrightarrow> at vals p = at g0 p) \<and>
     (\<forall>p \<in> set cells. at vals p \<noteq> None \<longrightarrow> digit (at vals p)) \<and>
     (\<forall>p \<in> set cells. \<forall>q \<in> set cells. peer p q \<longrightarrow> at vals p \<noteq> None \<longrightarrow> at vals p \<noteq> at vals q) \<and>
     dom_ok g0 (grid_variables g0) d"

lemma clone_entry_not_DSet: "clone_entry c \<noteq> DSet xs"
  by (cases c) (simp_all add: clone_entry_def)

lemma dom_ok_shrinks:
  assumes "dom_ok g0 vars d" "shrinks d d'"
  shows "dom_ok g0 vars d'"
  unfolding dom_ok_def
proof
  fix p assume p: "p \<in> set cells"
  from assms(2) have le: "entry_le (dget d' p) (dget d p)" and r: "in_range d' p = in_range d p"
    unfolding shrinks_def by blast+
  show "in_range d' p \<and> (if p \<in> set vars
      then (\<exists>xs. dget d' p = DSet xs \<and> distinct xs \<and> set xs \<subseteq> set (init_domain g0 p))
      else dget d' p = clone_entry (at g0 p))"
  proof (cases "p \<in> set vars")
    case True
    have "in_range d p \<and> (\<exists>xs. dget d p = DSet xs \<and> distinct xs \<and> set xs \<subseteq> set (init_domain g0 p))"
      using assms(1) p True unfolding dom_ok_def by simp
    then obtain xs where xs: "dget d p = DSet xs" "distinct xs"
        "set xs \<subseteq> set (init_domain g0 p)" "in_range d p"
      by blast
    with le obtain ys where "dget d' p = DSet ys" by (auto dest: entry_le_DSet)
    with le xs r True show ?thesis by auto
  next
    case False
    have "in_range d p \<and> dget d p = clone_entry (at g0 p)"
      using assms(1) p False unfolding dom_ok_def by simp
    then have "dget d p = clone_entry (at g0 p)" "in_range d p" by simp_all
    with le r False show ?thesis by (auto dest: entry_le_not_DSet simp: clone_entry_not_DSet)
  qed
qed

lemma dom_ok_init:
  "shape9 g0 \<Longrightarrow> dom_ok g0 (grid_variables g0) (init_domains g0 (grid_variables g0))"
  by (auto simp: dom_ok_def dget_init_domains in_range_init_domains distinct_init_domain
      set_grid_variables)

lemma search_inv_init:
  assumes "well_formed g0"
  shows "search_inv g0 g0 (init_domains g0 (grid_variables g0))"
proof -
  have sh: "shape9 g0" using assms by (simp add: well_formed_iff)
  have "dom_ok g0 (grid_variables g0) (init_domains g0 (grid_variables g0))"
    using sh by (rule dom_ok_init)
  moreover have "\<forall>p \<in> set cells. at g0 p \<noteq> None \<longrightarrow> digit (at g0 p)"
    using assms unfolding well_formed_iff by metis
  moreover have "\<forall>p \<in> set cells. \<forall>q \<in> set cells. peer p q \<longrightarrow> at g0 p \<noteq> None \<longrightarrow> at g0 p \<noteq> at g0 q"
    using assms unfolding well_formed_iff by metis
  ultimately show ?thesis
    using assms sh unfolding search_inv_def by simp
qed

lemma dom_ok_assign:
  assumes "dom_ok g0 vars d" "v \<in> set cells" "dget d v = DSet xs" "val \<in> set xs"
    "set xs \<subseteq> set (init_domain g0 v)"
  shows "dom_ok g0 vars (upd d v (DSet [val]))"
proof -
  have inr: "in_range d v" using assms(1,2) by (simp add: dom_ok_def)
  have "v \<in> set vars"
    using assms(1-3) clone_entry_not_DSet unfolding dom_ok_def by metis
  with assms inr show ?thesis
    by (auto simp: dom_ok_def dget_upd)
qed

text \<open>The value tried at the selected cell: a candidate of its initial
  domain, so a digit that no given peer holds. Only the domains and the givens
  matter here, not the well-formedness of the input.\<close>

lemma selected_cell_dom:
  assumes dok: "dom_ok g0 (grid_variables g0) d"
    and giv: "\<forall>p \<in> set cells. at g0 p \<noteq> None \<longrightarrow> at vals p = at g0 p"
    and sel: "unassigned_variable (grid_variables g0) vals d = Some v"
    and val: "val \<in> set (elems (dget d v))"
  shows "v \<in> set cells" "at vals v = None" "in_range vals v" "at g0 v = None"
    "\<exists>xs. dget d v = DSet xs \<and> val \<in> set xs \<and> set xs \<subseteq> set (init_domain g0 v)"
    "val \<in> set (init_domain g0 v)"
proof -
  from sel show v: "v \<in> set cells" and "at vals v = None" and "in_range vals v"
    by (auto dest!: unassigned_variable_null simp: is_null_def)
  with giv show g0v: "at g0 v = None" by auto
  with v have "v \<in> set (grid_variables g0)" by (simp add: set_grid_variables falsy_def)
  with dok obtain xs where xs: "dget d v = DSet xs" "set xs \<subseteq> set (init_domain g0 v)"
    using v unfolding dom_ok_def by fastforce
  with val show "\<exists>xs. dget d v = DSet xs \<and> val \<in> set xs \<and> set xs \<subseteq> set (init_domain g0 v)"
    by auto
  with xs val show "val \<in> set (init_domain g0 v)" by auto
qed

lemma selected_cell:
  assumes inv: "search_inv g0 vals d"
    and sel: "unassigned_variable (grid_variables g0) vals d = Some v"
    and val: "val \<in> set (elems (dget d v))"
  shows "v \<in> set cells" "at vals v = None" "in_range vals v" "at g0 v = None"
    "\<exists>xs. dget d v = DSet xs \<and> val \<in> set xs \<and> set xs \<subseteq> set (init_domain g0 v)"
    "1 \<le> val \<and> val \<le> 9" "\<forall>q \<in> set cells. peer v q \<longrightarrow> at g0 q \<noteq> Some val"
proof -
  have "dom_ok g0 (grid_variables g0) d"
    and "\<forall>p \<in> set cells. at g0 p \<noteq> None \<longrightarrow> at vals p = at g0 p"
    using inv by (simp_all add: search_inv_def)
  note sc = selected_cell_dom [OF this sel val]
  show "v \<in> set cells" "at vals v = None" "in_range vals v" "at g0 v = None"
    "\<exists>xs. dget d v = DSet xs \<and> val \<in> set xs \<and> set xs \<subseteq> set (init_domain g0 v)"
    using sc by simp_all
  show "1 \<le> val \<and> val \<le> 9" "\<forall>q \<in> set cells. peer v q \<longrightarrow> at g0 q \<noteq> Some val"
    using sc(6) init_domain_mem [OF sc(1)] by simp_all
qed

text \<open>No peer of the selected cell holds the value tried there, once it passed
  \<open>consistent\<close>: a given peer by the initial domain, an empty peer (a
  variable) by \<open>consistent\<close>.\<close>

lemma assigned_value_fresh:
  assumes giv: "\<forall>p \<in> set cells. at g0 p \<noteq> None \<longrightarrow> at vals p = at g0 p"
    and v: "v \<in> set cells" "in_range vals v"
    and dom: "val \<in> set (init_domain g0 v)"
    and cons: "consistent (grid_variables g0) v (upd vals v (Some val))"
    and q: "q \<in> set cells" "peer v q"
  shows "at vals q \<noteq> Some val"
proof (cases "at g0 q = None")
  case True
  with q have "q \<in> set (grid_variables g0)" by (simp add: set_grid_variables falsy_def)
  with cons q v(1) have "at (upd vals v (Some val)) v \<noteq> at (upd vals v (Some val)) q"
    by (simp add: consistent_iff)
  moreover from q(2) have "q \<noteq> v" by auto
  ultimately show ?thesis using v(2) by (simp add: at_upd)
next
  case False
  with giv q dom v(1) show ?thesis by (auto simp: init_domain_mem)
qed

lemma search_inv_step:
  assumes inv: "search_inv g0 vals d"
    and sel: "unassigned_variable (grid_variables g0) vals d = Some v"
    and val: "val \<in> set (elems (dget d v))"
    and cons: "consistent (grid_variables g0) v (upd vals v (Some val))"
    and ac: "ac3 (grid_variables g0) v (upd d v (DSet [val])) = Some d'"
  shows "search_inv g0 (upd vals v (Some val)) d'"
proof -
  let ?vars = "grid_variables g0" and ?nv = "upd vals v (Some val)"
  note sc = selected_cell [OF inv sel val]
  have wf: "well_formed g0" and sh: "shape9 vals"
    and giv: "\<forall>p \<in> set cells. at g0 p \<noteq> None \<longrightarrow> at vals p = at g0 p"
    and dig: "\<forall>p \<in> set cells. at vals p \<noteq> None \<longrightarrow> digit (at vals p)"
    and pw: "\<forall>p \<in> set cells. \<forall>q \<in> set cells. peer p q \<longrightarrow> at vals p \<noteq> None \<longrightarrow> at vals p \<noteq> at vals q"
    and dok: "dom_ok g0 ?vars d"
    using inv by (simp_all add: search_inv_def)
  have at_nv: "\<And>p. at ?nv p = (if p = v then Some val else at vals p)"
    using sc(3) by (simp add: at_upd)
  have "val \<in> set (init_domain g0 v)" using sc(5) by auto
  note other = assigned_value_fresh [OF giv sc(1,3) this cons]
  have pw': "\<forall>p \<in> set cells. \<forall>q \<in> set cells. peer p q \<longrightarrow> at ?nv p \<noteq> None \<longrightarrow> at ?nv p \<noteq> at ?nv q"
  proof (intro ballI impI)
    fix p q assume p: "p \<in> set cells" and q: "q \<in> set cells" and pq: "peer p q"
      and nn: "at ?nv p \<noteq> None"
    show "at ?nv p \<noteq> at ?nv q"
    proof (cases "p = v")
      case True
      with pq have "q \<noteq> v" by auto
      then have "at ?nv p = Some val" "at ?nv q = at vals q" using True at_nv by simp_all
      moreover have "at vals q \<noteq> Some val" using other q pq True by simp
      ultimately show ?thesis by simp
    next
      case False
      show ?thesis
      proof (cases "q = v")
        case True
        with pq have "peer v p" by (simp add: peer_sym)
        then have "at vals p \<noteq> Some val" using other p by simp
        moreover have "at ?nv p = at vals p" "at ?nv q = Some val"
          using True \<open>p \<noteq> v\<close> at_nv by simp_all
        ultimately show ?thesis by simp
      next
        case False
        with \<open>p \<noteq> v\<close> p q pq nn pw at_nv show ?thesis by auto
      qed
    qed
  qed
  obtain xs where xs: "dget d v = DSet xs" "val \<in> set xs" "set xs \<subseteq> set (init_domain g0 v)"
    using sc(5) by blast
  have "dom_ok g0 ?vars (upd d v (DSet [val]))"
    using dok sc(1) xs by (rule dom_ok_assign)
  then have "dom_ok g0 ?vars d'"
    using ac by (blast intro: dom_ok_shrinks ac3_shrinks)
  moreover have "\<forall>p \<in> set cells. at g0 p \<noteq> None \<longrightarrow> at ?nv p = at g0 p"
    using giv sc(4) at_nv by auto
  moreover have "\<forall>p \<in> set cells. at ?nv p \<noteq> None \<longrightarrow> digit (at ?nv p)"
    using dig sc(6) at_nv by auto
  ultimately show ?thesis
    using wf sh pw' by (simp add: search_inv_def)
qed

lemma solved_at:
  "solved vals \<Longrightarrow> shape9 vals \<Longrightarrow> p \<in> set cells \<Longrightarrow> at vals p \<noteq> None"
  by (cases p) (auto simp: solved_def shape9_def list_all_length at_def in_cells)

lemma search_inv_solved:
  assumes "search_inv g0 vals d" "solved vals"
  shows "sudoku_solution vals \<and> extends g0 vals"
  using assms solved_at [OF assms(2)]
  by (auto simp: search_inv_def sudoku_solution_iff extends_iff)

section \<open>Soundness of the search\<close>

lemma backtrack_sound:
  "search_inv g0 vals d \<Longrightarrow> vars = grid_variables g0 \<Longrightarrow>
     fst (backtrack vars vals d n) = Some r \<Longrightarrow> sudoku_solution r \<and> extends g0 r"
  "search_inv g0 vals d \<Longrightarrow> vars = grid_variables g0 \<Longrightarrow>
     unassigned_variable vars vals d = Some v \<Longrightarrow> set vs \<subseteq> set (elems (dget d v)) \<Longrightarrow>
     fst (try_values vars vals d v vs n) = Some r \<Longrightarrow> sudoku_solution r \<and> extends g0 r"
proof (induction vars vals d n and vars vals d v vs n rule: backtrack_try_values.induct)
  case (1 vars vals d n)
  show ?case
  proof (cases "solved vals")
    case True
    with "1.prems" show ?thesis
      by (auto simp: backtrack.simps(1) dest: search_inv_solved)
  next
    case False
    show ?thesis
    proof (cases "unassigned_variable vars vals d")
      case None
      with False "1.prems" show ?thesis by (simp add: backtrack.simps(1))
    next
      case (Some v)
      with False "1.prems" have "fst (try_values vars vals d v (elems (dget d v)) (Suc n)) = Some r"
        by (simp add: backtrack.simps(1))
      with False Some "1.prems" show ?thesis by (intro "1.IH") auto
    qed
  qed
next
  case (2 vars vals d v n)
  then show ?case by simp
next
  case (3 vars vals d v val rest n)
  let ?nv = "upd vals v (Some val)"
  have rest: "set rest \<subseteq> set (elems (dget d v))" and val: "val \<in> set (elems (dget d v))"
    using "3.prems"(4) by auto
  show ?case
  proof (cases "consistent vars v ?nv")
    case False
    with "3.prems" rest show ?thesis by (intro "3.IH"(4)) (simp_all add: Let_def)
  next
    case cons: True
    show ?thesis
    proof (cases "ac3 vars v (upd d v (DSet [val]))")
      case None
      with cons "3.prems" rest show ?thesis by (intro "3.IH"(1)) (simp_all add: Let_def)
    next
      case ac: (Some d')
      have inv': "search_inv g0 ?nv d'"
        using "3.prems"(1,3) val cons ac unfolding "3.prems"(2) by (rule search_inv_step)
      obtain r' n' where bt: "backtrack vars ?nv d' n = (r', n')" by fastforce
      show ?thesis
      proof (cases r')
        case res: (Some r'')
        with cons ac bt "3.prems"(5) have "fst (backtrack vars ?nv d' n) = Some r"
          by (simp add: Let_def)
        with cons ac inv' "3.prems"(2) show ?thesis by (intro "3.IH"(2)) (simp_all add: Let_def)
      next
        case None
        have "fst (try_values vars vals d v rest n') = Some r"
          using "3.prems"(5) cons ac bt None by (simp add: Let_def)
        then show ?thesis
          using "3.IH"(3) [OF refl cons ac bt [symmetric] None] "3.prems"(1-3) rest by blast
      qed
    qed
  qed
qed

section \<open>Completeness of the search\<close>

lemma mrv_scan_None:
  "mrv_scan vars d vs m deg c = None \<Longrightarrow>
     c = None \<and> (\<forall>v \<in> set vs. \<forall>k. size_of (dget d v) = Some k \<longrightarrow> m < k)"
proof (induction vars d vs m deg c rule: mrv_scan.induct)
  case (1 vars d mrv degree candidate)
  then show ?case by simp
next
  case (2 vars d v vs mrv degree candidate)
  show ?case
  proof (cases "size_of (dget d v)")
    case None
    with "2.prems" "2.IH"(1) show ?thesis by simp
  next
    case (Some s)
    show ?thesis
    proof (cases "s \<le> mrv")
      case le: True
      let ?n = "length (neighbours vars v)"
      show ?thesis
      proof (cases "degree < ?n")
        case True
        with Some le "2.prems" have "mrv_scan vars d vs s ?n (Some v) = None"
          by (simp add: Let_def)
        with "2.IH"(2) [OF Some le refl True] show ?thesis by simp
      next
        case False
        with Some le "2.prems" have "mrv_scan vars d vs s degree (Some v) = None"
          by (simp add: Let_def)
        with "2.IH"(3) [OF Some le refl False] show ?thesis by simp
      qed
    next
      case False
      with Some "2.prems" "2.IH"(4) show ?thesis by auto
    qed
  qed
qed

lemma not_solved_at:
  "shape9 vals \<Longrightarrow> \<not> solved vals \<Longrightarrow> \<exists>p \<in> set cells. at vals p = None"
  apply (auto simp: solved_def shape9_def list_all_length)
  subgoal for i j by (rule bexI [of _ "(i, j)"]) (simp_all add: at_def in_cells)
  done

lemma length_init_domain: "length (init_domain g p) \<le> 9"
proof -
  have "length (init_domain g p) \<le> length [1..<10]"
    unfolding init_domain_eq by (rule length_filter_le)
  then show ?thesis by simp
qed

lemma dom_ok_var:
  assumes "dom_ok g0 vars d" "p \<in> set cells" "p \<in> set vars"
  obtains xs where "dget d p = DSet xs" "distinct xs" "set xs \<subseteq> set (init_domain g0 p)"
    "length xs \<le> 9" "in_range d p"
proof -
  from assms obtain xs where xs: "dget d p = DSet xs" "distinct xs"
      "set xs \<subseteq> set (init_domain g0 p)" "in_range d p"
    unfolding dom_ok_def by fastforce
  then have "length xs = card (set xs)" by (simp add: distinct_card)
  also have "\<dots> \<le> card (set (init_domain g0 p))" using xs(3) by (simp add: card_mono)
  also have "\<dots> \<le> length (init_domain g0 p)" by (rule card_length)
  also have "\<dots> \<le> 9" by (rule length_init_domain)
  finally show ?thesis using xs that by blast
qed

lemma unassigned_variable_exists:
  assumes inv: "search_inv g0 vals d" and ns: "\<not> solved vals"
  shows "\<exists>v. unassigned_variable (grid_variables g0) vals d = Some v"
proof -
  have sh: "shape9 vals" and wf: "well_formed g0"
    and giv: "\<forall>p \<in> set cells. at g0 p \<noteq> None \<longrightarrow> at vals p = at g0 p"
    and dok: "dom_ok g0 (grid_variables g0) d"
    using inv by (simp_all add: search_inv_def)
  from not_solved_at [OF sh ns] obtain p where p: "p \<in> set cells" "at vals p = None" by blast
  with giv have "at g0 p = None" by auto
  with wf p have var: "p \<in> set (grid_variables g0)" by (simp add: well_formed_variables)
  from dok p(1) var obtain xs where "dget d p = DSet xs" "length xs \<le> 9" by (rule dom_ok_var)
  moreover have "p \<in> set (unassigned_cells vals)"
    using p sh by (simp add: unassigned_cells_def is_null_def)
  ultimately have "unassigned_variable (grid_variables g0) vals d \<noteq> None"
  proof (intro notI)
    assume "unassigned_variable (grid_variables g0) vals d = None"
    then have "\<forall>v \<in> set (unassigned_cells vals). \<forall>k. size_of (dget d v) = Some k \<longrightarrow> 10 < k"
      unfolding unassigned_variable_def by (blast dest: mrv_scan_None)
    moreover assume "dget d p = DSet xs" "length xs \<le> 9" "p \<in> set (unassigned_cells vals)"
    ultimately show False by fastforce
  qed
  then show ?thesis by blast
qed

lemma solution_cell:
  "sudoku_solution r \<Longrightarrow> p \<in> set cells \<Longrightarrow> at r p = Some (the (at r p))"
  by (auto simp: sudoku_solution_iff digit_def split: option.splits)

lemma solution_sol_distinct:
  "sudoku_solution r \<Longrightarrow> sol_distinct vars (\<lambda>p. the (at r p))"
  unfolding sol_distinct_def by (metis solution_cell sudoku_solution_iff)

lemma clone_entry_not_set: "\<not> is_set (clone_entry c)"
  by (cases c) (simp_all add: clone_entry_def)

lemma dom_ok_sets_only_vars: "dom_ok g0 vars d \<Longrightarrow> sets_only_vars vars d"
  by (auto simp: dom_ok_def sets_only_vars_def clone_entry_not_set)

lemma admits_init:
  assumes "well_formed g0" "sudoku_solution r" "extends g0 r"
  shows "admits (\<lambda>p. the (at r p)) (grid_variables g0) (init_domains g0 (grid_variables g0))"
  unfolding admits_def
proof (intro ballI impI)
  fix p assume var: "p \<in> set (grid_variables g0)" and p: "p \<in> set cells"
  have sh: "shape9 g0" using assms(1) by (simp add: well_formed_iff)
  have rp: "at r p = Some (the (at r p))" using assms(2) p by (rule solution_cell)
  have "the (at r p) \<in> set (init_domain g0 p)"
    unfolding init_domain_mem [OF p]
  proof (intro conjI ballI impI)
    show "1 \<le> the (at r p)" "the (at r p) \<le> 9"
      using assms(2) p rp unfolding sudoku_solution_iff by (metis digit_Some)+
  next
    fix q assume q: "q \<in> set cells" "peer p q"
    show "at g0 q \<noteq> Some (the (at r p))"
    proof
      assume "at g0 q = Some (the (at r p))"
      with assms(3) q(1) have "at r q = at r p" using rp by (auto simp: extends_iff)
      with assms(2) p q show False unfolding sudoku_solution_iff by metis
    qed
  qed
  with sh var p show "the (at r p) \<in> set (elems (dget (init_domains g0 (grid_variables g0)) p))"
    by (simp add: dget_init_domains set_grid_variables)
qed

lemma extends_upd:
  "extends vals r \<Longrightarrow> in_range vals v \<Longrightarrow> at r v = Some val \<Longrightarrow>
     extends (upd vals v (Some val)) r"
  by (auto simp: extends_iff at_upd)

text \<open>The value of the solution at the selected cell passes the consistency
  check, and AC-3 seeded from it succeeds and keeps the solution.\<close>

lemma solution_value_step:
  assumes inv: "search_inv g0 vals d" and sol: "sudoku_solution r" and ext: "extends vals r"
    and adm: "admits (\<lambda>p. the (at r p)) (grid_variables g0) d"
    and sel: "unassigned_variable (grid_variables g0) vals d = Some v"
    and val: "val = the (at r v)"
  shows "consistent (grid_variables g0) v (upd vals v (Some val))"
    "\<exists>d'. ac3 (grid_variables g0) v (upd d v (DSet [val])) = Some d' \<and>
       admits (\<lambda>p. the (at r p)) (grid_variables g0) d'"
    "val \<in> set (elems (dget d v))"
    "extends (upd vals v (Some val)) r"
proof -
  let ?vars = "grid_variables g0" and ?\<sigma> = "\<lambda>p. the (at r p)"
  from sel have v: "v \<in> set cells" "at vals v = None" "in_range vals v"
    by (auto dest!: unassigned_variable_null simp: is_null_def)
  have wf: "well_formed g0" and dok: "dom_ok g0 ?vars d"
    and giv: "\<forall>p \<in> set cells. at g0 p \<noteq> None \<longrightarrow> at vals p = at g0 p"
    using inv by (simp_all add: search_inv_def)
  from v giv have "at g0 v = None" by auto
  with wf v have var: "v \<in> set ?vars" by (simp add: well_formed_variables)
  have rv: "at r v = Some val" using solution_cell [OF sol v(1)] val by simp
  show "consistent ?vars v (upd vals v (Some val))"
    unfolding consistent_iff [OF v(1)]
  proof (intro ballI impI)
    fix q assume q: "q \<in> set ?vars" "q \<in> set cells" "peer v q"
    then have "q \<noteq> v" by auto
    with v(3) have aq: "at (upd vals v (Some val)) q = at vals q" by (simp add: at_upd)
    have "at vals q \<noteq> Some val"
    proof
      assume "at vals q = Some val"
      with ext q(2) have "at r q = Some val" by (auto simp: extends_iff)
      with rv sol v(1) q(2,3) show False unfolding sudoku_solution_iff by metis
    qed
    with aq v(3) show "at (upd vals v (Some val)) v \<noteq> at (upd vals v (Some val)) q"
      by (simp add: at_upd)
  qed
  from dok v(1) var obtain xs where xs: "dget d v = DSet xs" "in_range d v"
    by (rule dom_ok_var)
  from adm var v(1) show vd: "val \<in> set (elems (dget d v))"
    by (simp add: admits_def val)
  have "admits ?\<sigma> ?vars (upd d v (DSet [val]))"
    using adm xs(2) by (auto simp: admits_def dget_upd val)
  moreover have "sets_only_vars ?vars (upd d v (DSet [val]))"
    using dom_ok_sets_only_vars [OF dok] var xs(2)
    by (auto simp: sets_only_vars_def dget_upd)
  moreover have "set (elems (dget (upd d v (DSet [val])) v)) \<subseteq> {?\<sigma> v}"
    using xs(2) val by (simp add: dget_upd)
  ultimately show "\<exists>d'. ac3 ?vars v (upd d v (DSet [val])) = Some d' \<and> admits ?\<sigma> ?vars d'"
    using solution_sol_distinct [OF sol] var v(1) by (intro ac3_complete)
  show "extends (upd vals v (Some val)) r"
    using ext v(3) rv by (rule extends_upd)
qed

lemma backtrack_complete:
  "search_inv g0 vals d \<Longrightarrow> vars = grid_variables g0 \<Longrightarrow> sudoku_solution r \<Longrightarrow>
     extends vals r \<Longrightarrow> admits (\<lambda>p. the (at r p)) vars d \<Longrightarrow>
     \<exists>res n'. backtrack vars vals d n = (Some res, n')"
  "search_inv g0 vals d \<Longrightarrow> vars = grid_variables g0 \<Longrightarrow> sudoku_solution r \<Longrightarrow>
     extends vals r \<Longrightarrow> admits (\<lambda>p. the (at r p)) vars d \<Longrightarrow>
     unassigned_variable vars vals d = Some v \<Longrightarrow> the (at r v) \<in> set vs \<Longrightarrow>
     \<exists>res n'. try_values vars vals d v vs n = (Some res, n')"
proof (induction vars vals d n and vars vals d v vs n rule: backtrack_try_values.induct)
  case (1 vars vals d n)
  show ?case
  proof (cases "solved vals")
    case True
    then show ?thesis by (simp add: backtrack.simps(1))
  next
    case False
    with "1.prems"(1,2) obtain v where sel: "unassigned_variable vars vals d = Some v"
      using unassigned_variable_exists by blast
    have "the (at r v) \<in> set (elems (dget d v))"
      using solution_value_step(3) [OF "1.prems"(1,3,4) _ _ refl] "1.prems"(2,5) sel by simp
    with "1.IH" [OF False sel] "1.prems" sel obtain res n' where
      "try_values vars vals d v (elems (dget d v)) (Suc n) = (Some res, n')" by blast
    with False sel show ?thesis by (simp add: backtrack.simps(1))
  qed
next
  case (2 vars vals d v n)
  then show ?case by simp
next
  case (3 vars vals d v val rest n)
  let ?nv = "upd vals v (Some val)"
  note prems = "3.prems"
  show ?case
  proof (cases "val = the (at r v)")
    case True
    note st = solution_value_step [OF prems(1,3,4) _ _ True] 
    have cons: "consistent vars v ?nv" using st(1) prems(2,5,6) by simp
    obtain d' where ac: "ac3 vars v (upd d v (DSet [val])) = Some d'"
      and adm': "admits (\<lambda>p. the (at r p)) vars d'"
      using st(2) prems(2,5,6) by auto
    have inv': "search_inv g0 ?nv d'"
      using search_inv_step [OF prems(1)] st(3) cons ac prems(2,5,6) by simp
    have ext': "extends ?nv r" using st(4) prems(2,5,6) by simp
    obtain res n' where "backtrack vars ?nv d' n = (Some res, n')"
      using "3.IH"(2) [OF refl cons ac inv' prems(2,3) ext' adm'] by blast
    with cons ac show ?thesis by (simp add: Let_def)
  next
    case False
    with prems(7) have rest: "the (at r v) \<in> set rest" by simp
    show ?thesis
    proof (cases "consistent vars v ?nv")
      case False
      with "3.IH"(4) [OF refl False prems(1-6) rest] show ?thesis by (simp add: Let_def)
    next
      case cons: True
      show ?thesis
      proof (cases "ac3 vars v (upd d v (DSet [val]))")
        case None
        with cons "3.IH"(1) [OF refl cons None prems(1-6) rest] show ?thesis
          by (simp add: Let_def)
      next
        case ac: (Some d')
        obtain r' n' where bt: "backtrack vars ?nv d' n = (r', n')" by fastforce
        show ?thesis
        proof (cases r')
          case None
          with cons ac bt "3.IH"(3) [OF refl cons ac bt [symmetric] None prems(1-6) rest]
          show ?thesis by (simp add: Let_def)
        next
          case (Some res)
          with cons ac bt show ?thesis by (simp add: Let_def)
        qed
      qed
    qed
  qed
qed

section \<open>The object's entry point\<close>

lemma solution_of_solve:
  "make_sudoku g = Inr s \<Longrightarrow>
     solution_of (fst (solve b s)) =
       fst (backtrack (grid_variables g) g (init_domains g (grid_variables g)) 0)"
  by (auto dest!: make_sudoku_Inr simp: solve_def solution_of_def split: prod.splits)

section \<open>The explored counter and the shape of results\<close>

text \<open>\<open>backtrack\<close> adds to the counter it is given: the count of a call
  does not depend on its starting value.\<close>

lemma backtrack_shift:
  "backtrack vars vals d (n + k) = (fst (backtrack vars vals d n), k + snd (backtrack vars vals d n))"
  "try_values vars vals d v vs (n + k) =
     (fst (try_values vars vals d v vs n), k + snd (try_values vars vals d v vs n))"
proof (induction vars vals d n and vars vals d v vs n arbitrary: k and k rule: backtrack_try_values.induct)
  case (1 vars vals d n)
  then show ?case
    by (auto simp: backtrack.simps(1) split: option.splits)
next
  case (2 vars vals d v n)
  then show ?case by simp
next
  case (3 vars vals d v val rest n)
  let ?nv = "upd vals v (Some val)"
  show ?case
  proof (cases "consistent vars v ?nv")
    case False
    with "3.IH"(4) show ?thesis by (simp add: Let_def)
  next
    case cons: True
    show ?thesis
    proof (cases "ac3 vars v (upd d v (DSet [val]))")
      case None
      with cons "3.IH"(1) show ?thesis by (simp add: Let_def)
    next
      case ac: (Some d')
      obtain r' n' where bt: "backtrack vars ?nv d' n = (r', n')" by fastforce
      have bk: "backtrack vars ?nv d' (n + k) = (r', k + n')"
        using "3.IH"(2) [OF refl cons ac, of k] bt by simp
      show ?thesis
      proof (cases r')
        case None
        have "try_values vars vals d v rest (n' + k) =
            (fst (try_values vars vals d v rest n'), k + snd (try_values vars vals d v rest n'))"
          using "3.IH"(3) [OF refl cons ac bt [symmetric] None] .
        with cons ac bt bk None show ?thesis by (simp add: Let_def add.commute)
      next
        case (Some res)
        with cons ac bt bk show ?thesis by (simp add: Let_def)
      qed
    qed
  qed
qed

lemma backtrack_from_0:
  "backtrack vars vals d n = (fst (backtrack vars vals d 0), n + snd (backtrack vars vals d 0))"
  using backtrack_shift(1) [of vars vals d 0 n] by simp

section \<open>The search tree and the calls of backtrack\<close>

text \<open>What holds of every state of the search tree for any 9x9 input, well
  formed or not: the givens are kept, and every cell the search filled holds a
  digit that differs from all its peers. Given cells are never compared with
  each other.\<close>

definition filled_ok :: "grid \<Rightarrow> grid \<Rightarrow> bool" where
  "filled_ok g0 vals \<longleftrightarrow> shape9 vals \<and>
     (\<forall>p \<in> set cells. at g0 p \<noteq> None \<longrightarrow> at vals p = at g0 p) \<and>
     (\<forall>p \<in> set cells. at g0 p = None \<longrightarrow> at vals p \<noteq> None \<longrightarrow>
        digit (at vals p) \<and> (\<forall>q \<in> set cells. peer p q \<longrightarrow> at vals p \<noteq> at vals q))"

lemma solved_iff: "shape9 vals \<Longrightarrow> solved vals \<longleftrightarrow> (\<forall>p \<in> set cells. at vals p \<noteq> None)"
  using solved_at not_solved_at by blast

lemma filled_ok_step:
  assumes fo: "filled_ok g0 vals" and dok: "dom_ok g0 (grid_variables g0) d"
    and sel: "unassigned_variable (grid_variables g0) vals d = Some v"
    and val: "val \<in> set (elems (dget d v))"
    and cons: "consistent (grid_variables g0) v (upd vals v (Some val))"
  shows "filled_ok g0 (upd vals v (Some val))"
proof -
  let ?nv = "upd vals v (Some val)"
  have sh: "shape9 vals" and giv: "\<forall>p \<in> set cells. at g0 p \<noteq> None \<longrightarrow> at vals p = at g0 p"
    and fill: "\<forall>p \<in> set cells. at g0 p = None \<longrightarrow> at vals p \<noteq> None \<longrightarrow>
        digit (at vals p) \<and> (\<forall>q \<in> set cells. peer p q \<longrightarrow> at vals p \<noteq> at vals q)"
    using fo by (simp_all add: filled_ok_def)
  note sc = selected_cell_dom [OF dok giv sel val]
  note other = assigned_value_fresh [OF giv sc(1,3) sc(6) cons]
  have at_nv: "\<And>p. at ?nv p = (if p = v then Some val else at vals p)"
    using sc(3) by (simp add: at_upd)
  have dv: "digit (Some val)" using sc(6) init_domain_mem [OF sc(1)] by simp
  have fill': "digit (at ?nv p) \<and> (\<forall>q \<in> set cells. peer p q \<longrightarrow> at ?nv p \<noteq> at ?nv q)"
    if p: "p \<in> set cells" "at g0 p = None" "at ?nv p \<noteq> None" for p
  proof (cases "p = v")
    case True
    have "at ?nv q \<noteq> Some val" if q: "q \<in> set cells" "peer p q" for q
    proof -
      from q True have "q \<noteq> v" by auto
      then show ?thesis using other [OF q(1)] q(2) True at_nv by simp
    qed
    with True at_nv dv show ?thesis by (simp add: ball_conj_distrib) (metis (no_types, lifting))
  next
    case False
    then have "at vals p \<noteq> None" using p(3) at_nv by simp
    with fill p(1,2) have "digit (at vals p)"
      and pw: "\<forall>q \<in> set cells. peer p q \<longrightarrow> at vals p \<noteq> at vals q" by auto
    have "at vals p \<noteq> Some val" if "peer p v" using other [OF p(1)] that by (simp add: peer_sym)
    with False pw \<open>digit (at vals p)\<close> show ?thesis using at_nv by auto
  qed
  have "\<forall>p \<in> set cells. at g0 p \<noteq> None \<longrightarrow> at ?nv p = at g0 p"
    using giv sc(4) at_nv by auto
  with sh fill' show ?thesis by (simp add: filled_ok_def)
qed

lemma reach_filled:
  assumes "shape9 g0" and "reach g0 vals d"
  shows "filled_ok g0 vals \<and> dom_ok g0 (grid_variables g0) d"
  using assms(2)
proof (induction rule: reach.induct)
  case start
  show ?case using assms(1) dom_ok_init by (auto simp: filled_ok_def)
next
  case (assign vals d v val d')
  have fo: "filled_ok g0 vals" and dok: "dom_ok g0 (grid_variables g0) d"
    using assign.IH by simp_all
  then have giv: "\<forall>p \<in> set cells. at g0 p \<noteq> None \<longrightarrow> at vals p = at g0 p"
    by (simp add: filled_ok_def)
  note sc = selected_cell_dom [OF dok giv assign.hyps(3,4)]
  have "filled_ok g0 (upd vals v (Some val))"
    using fo dok assign.hyps(3-5) by (rule filled_ok_step)
  moreover obtain xs where "dget d v = DSet xs" "val \<in> set xs" "set xs \<subseteq> set (init_domain g0 v)"
    using sc(5) by blast
  then have "dom_ok g0 (grid_variables g0) (upd d v (DSet [val]))"
    using dok sc(1) by (rule dom_ok_assign [rotated 2])
  then have "dom_ok g0 (grid_variables g0) d'"
    using assign.hyps(6) by (blast intro: dom_ok_shrinks ac3_shrinks)
  ultimately show ?case by simp
qed

text \<open>\<open>reach\<close> describes the calls \<open>backtrack\<close> makes: from a state of the
  search tree, every grid \<open>backtrack\<close> returns is a solved state of the
  search tree.\<close>

lemma backtrack_reach:
  "reach g0 vals d \<Longrightarrow> vars = grid_variables g0 \<Longrightarrow>
     fst (backtrack vars vals d n) = Some r \<Longrightarrow> \<exists>d'. reach g0 r d' \<and> solved r"
  "reach g0 vals d \<Longrightarrow> vars = grid_variables g0 \<Longrightarrow> \<not> solved vals \<Longrightarrow>
     unassigned_variable vars vals d = Some v \<Longrightarrow> set vs \<subseteq> set (elems (dget d v)) \<Longrightarrow>
     fst (try_values vars vals d v vs n) = Some r \<Longrightarrow> \<exists>d'. reach g0 r d' \<and> solved r"
proof (induction vars vals d n and vars vals d v vs n rule: backtrack_try_values.induct)
  case (1 vars vals d n)
  show ?case
  proof (cases "solved vals")
    case True
    with "1.prems" show ?thesis by (auto simp: backtrack.simps(1))
  next
    case False
    show ?thesis
    proof (cases "unassigned_variable vars vals d")
      case None
      with False "1.prems" show ?thesis by (simp add: backtrack.simps(1))
    next
      case (Some v)
      with False "1.prems" have "fst (try_values vars vals d v (elems (dget d v)) (Suc n)) = Some r"
        by (simp add: backtrack.simps(1))
      with False Some "1.prems" show ?thesis by (intro "1.IH") auto
    qed
  qed
next
  case (2 vars vals d v n)
  then show ?case by simp
next
  case (3 vars vals d v val rest n)
  let ?nv = "upd vals v (Some val)"
  have rest: "set rest \<subseteq> set (elems (dget d v))" and val: "val \<in> set (elems (dget d v))"
    using "3.prems"(5) by auto
  show ?case
  proof (cases "consistent vars v ?nv")
    case False
    with "3.prems" rest show ?thesis by (intro "3.IH"(4)) (simp_all add: Let_def)
  next
    case cons: True
    show ?thesis
    proof (cases "ac3 vars v (upd d v (DSet [val]))")
      case None
      with cons "3.prems" rest show ?thesis by (intro "3.IH"(1)) (simp_all add: Let_def)
    next
      case ac: (Some d')
      have r': "reach g0 ?nv d'"
        using reach.assign [OF "3.prems"(1,3)] "3.prems"(2,4) val cons ac by simp
      obtain r' n' where bt: "backtrack vars ?nv d' n = (r', n')" by fastforce
      show ?thesis
      proof (cases r')
        case res: (Some r'')
        with cons ac bt "3.prems"(6) have "fst (backtrack vars ?nv d' n) = Some r"
          by (simp add: Let_def)
        with cons ac r' "3.prems"(2) show ?thesis by (intro "3.IH"(2)) (simp_all add: Let_def)
      next
        case None
        have "fst (try_values vars vals d v rest n') = Some r"
          using "3.prems"(6) cons ac bt None by (simp add: Let_def)
        then show ?thesis
          using "3.IH"(3) [OF refl cons ac bt [symmetric] None] "3.prems"(1-4) rest by blast
      qed
    qed
  qed
qed

end
