(* ===== verification/Spec2Isabelle.thy ===== *)
theory Spec2Isabelle
  imports Search
begin

text \<open>
  A verification development of the Sudoku solver of src/javascript/sudoku.js
  (class \<open>Sudoku\<close>): a constraint-satisfaction solver with node consistency,
  AC-3 propagation, backtracking search and MRV variable selection.
  (src/javascript/example.js only constructs an example and prints it.)

  Library layout, in import order:
  \<^item> Prelude: JavaScript data as HOL data. A cell is \<open>(row, column)\<close>;
    \<open>values\<close> is a \<open>nat option list list\<close> (\<open>None\<close> = \<open>null\<close>); an entry of
    \<open>domains\<close> is a \<open>dentry\<close> (number, \<open>null\<close>, \<open>Set\<close> as an insertion-ordered
    duplicate-free list, \<open>undefined\<close>); the row/column/block scans shared by the
    constructor and \<open>neighbours\<close>; the peer relation; list-update lemmas.
  \<^item> Grid: the constructor (\<open>make_sudoku\<close>, lines 6-60) with its 9x9 check
    (\<open>Inl GridNot9x9\<close>), the variables and the initial domains; the notions
    \<open>sudoku_solution\<close>, \<open>extends\<close> and \<open>well_formed\<close>.
  \<^item> Neighbours: \<open>itemInArray\<close>, \<open>neighbours\<close> (lines 155-189, 235-239) and
    \<open>consistent\<close> (lines 142-153).
  \<^item> AC3: \<open>revise\<close> and the worklist loop \<open>ac3_loop\<close> / \<open>ac3\<close>
    (lines 191-231), a \<open>function\<close> whose termination measure is the total size
    of the domains, then the queue length.
  \<^item> Select: \<open>unassigned_variable\<close> (lines 107-140) as the scan \<open>mrv_scan\<close>.
  \<^item> Search: \<open>backtrack\<close> with its domain loop \<open>try_values\<close> (lines 72-105),
    mutually recursive, terminating because every recursive call has one
    \<open>null\<close> cell fewer; \<open>solve\<close> (lines 62-70). The explored-node counter of the
    object is threaded through as a number.

  The state of the object (\<open>explored\<close>, \<open>variables\<close>, \<open>values\<close>, \<open>domains\<close>)
  is the record \<open>sudoku\<close>. Every copy the code makes with \<open>structuredClone\<close>
  is a value in HOL, so the copy-on-branch isolation of the search is built in.
  Mutation of \<open>domains\<close> inside \<open>ac3\<close>/\<open>revise\<close> is explicit state passing.
  No fuel is needed: \<open>ac3_loop\<close> and \<open>backtrack\<close> are total functions with
  termination proofs, so every statement about a result is also a statement
  that the code returns.

  What is proved, by theory:
  \<^item> Grid: the constructor throws exactly on non-9x9 input; it builds the
    variables and the domains the code describes; an initial domain is
    exactly the digits no peer holds (node consistency).
  \<^item> Neighbours: \<open>neighbours\<close> is the duplicate-free list of variable peers;
    \<open>consistent\<close> compares with variable peers only.
  \<^item> AC3: \<open>revise\<close> removes exactly one candidate per change, whatever the
    size of the other domain; \<open>ac3\<close> only shrinks domains, never removes a
    value of a solution the domains admit and never fails when one exists,
    and is idempotent from a singleton; because the emptiness test of line
    205 reads the wrong cell, an emptied domain can survive into a
    successful result.
  \<^item> Select: the MRV/degree scan equals a reference \<open>mrv_choice\<close> (last cell
    of minimum domain size); the degree never decides.
  \<^item> Search and this theory: soundness and completeness of \<open>solve\<close> for
    well-formed puzzles (givens are digits, no two given peers equal); the
    search invariant on every state of the search tree (rule induction over
    \<open>reach\<close>), and the link between \<open>reach\<close> and \<open>backtrack\<close>: every grid
    \<open>backtrack\<close> returns is a solved state of the tree; for any 9x9 input,
    the returned grid is complete, keeps the givens and is valid at the cells
    the search filled, but givens are never checked against each other; the
    specification's one-hole scenario for every such grid; the counter
    doubling on a second \<open>solve\<close> of the same object.
  \<^item> A cell holding 0 is falsy: it becomes a variable with a domain, but the
    search only fills \<open>null\<close> cells, so such a cell is never assigned.

  Not modelled: printing and the example script (example.js); JavaScript
  values other than \<open>null\<close> and natural numbers in the grid (strings,
  negative or fractional numbers); \<open>TypeError\<close>s of out-of-range or
  non-\<open>Set\<close> reads, which the model shows unreachable where they matter and
  otherwise renders as an empty loop.
\<close>

section \<open>Example grids\<close>

text \<open>A solved grid (each row the previous one shifted), and the same grid with
  its top-right cell, a 9, emptied.\<close>

definition example_solved :: grid where
  "example_solved = map (map Some)
     [[1,2,3,4,5,6,7,8,9], [4,5,6,7,8,9,1,2,3], [7,8,9,1,2,3,4,5,6],
      [2,3,4,5,6,7,8,9,1], [5,6,7,8,9,1,2,3,4], [8,9,1,2,3,4,5,6,7],
      [3,4,5,6,7,8,9,1,2], [6,7,8,9,1,2,3,4,5], [9,1,2,3,4,5,6,7,8]]"

definition example_one_hole :: grid where
  "example_one_hole = upd example_solved (0, 8) None"

text \<open>The one-hole grid with a second 1 written into its bottom row: its
  givens conflict (cells \<open>(8,1)\<close> and \<open>(8,8)\<close>).\<close>

definition example_conflict :: grid where
  "example_conflict = upd example_one_hole (8, 8) (Some 1)"

lemmas example_defs = example_solved_def example_one_hole_def upd_def cells_def
  peer_cells_def at_def

section \<open>End-to-end properties\<close>

text \<open>C1. Soundness: for a well-formed puzzle, any grid \<open>solve\<close> returns is a
  complete valid Sudoku (every cell a digit, no two peers equal) that keeps every
  given value.\<close>

theorem solve_sound:
  assumes "well_formed g" and "make_sudoku g = Inr s"
    and "solution_of (fst (solve b s)) = Some r"
  shows "sudoku_solution r \<and> extends g r"
proof -
  have "fst (backtrack (grid_variables g) g (init_domains g (grid_variables g)) 0) = Some r"
    using assms(3) solution_of_solve [OF assms(2)] by simp
  then show ?thesis
    by (rule backtrack_sound(1) [OF search_inv_init [OF assms(1)] refl])
qed

theorem solve_sound_witness:
  "well_formed example_one_hole \<and>
   make_sudoku example_one_hole = Inr (projr (make_sudoku example_one_hole)) \<and>
   solution_of (fst (solve True (projr (make_sudoku example_one_hole)))) = Some example_solved \<and>
   sudoku_solution example_solved \<and> extends example_one_hole example_solved"
proof -
  have wf: "well_formed example_one_hole"
    by code_simp
  have mk: "make_sudoku example_one_hole = Inr (projr (make_sudoku example_one_hole))"
    by code_simp
  have sol: "solution_of (fst (solve True (projr (make_sudoku example_one_hole)))) =
      Some example_solved"
    by code_simp
  show ?thesis using solve_sound [OF wf mk sol] wf mk sol by simp
qed

text \<open>C2. Completeness: for a well-formed puzzle, \<open>solve\<close> returns a grid
  exactly when the puzzle has a solution; it reports no solution only for an
  unsolvable puzzle.\<close>

theorem solve_complete:
  assumes "well_formed g" and "make_sudoku g = Inr s"
  shows "(\<exists>r. solution_of (fst (solve b s)) = Some r) \<longleftrightarrow>
         (\<exists>r. sudoku_solution r \<and> extends g r)"
proof
  assume "\<exists>r. solution_of (fst (solve b s)) = Some r"
  then obtain r where "fst (backtrack (grid_variables g) g (init_domains g (grid_variables g)) 0) = Some r"
    using solution_of_solve [OF assms(2)] by auto
  then have "sudoku_solution r \<and> extends g r"
    by (rule backtrack_sound(1) [OF search_inv_init [OF assms(1)] refl])
  then show "\<exists>r. sudoku_solution r \<and> extends g r" by blast
next
  assume "\<exists>r. sudoku_solution r \<and> extends g r"
  then obtain r where r: "sudoku_solution r" "extends g r" by blast
  have "\<exists>res n'. backtrack (grid_variables g) g (init_domains g (grid_variables g)) 0 = (Some res, n')"
    using backtrack_complete(1) [OF search_inv_init [OF assms(1)] refl r admits_init [OF assms(1) r]] .
  then show "\<exists>r. solution_of (fst (solve b s)) = Some r"
    using solution_of_solve [OF assms(2)] by auto
qed

theorem solve_complete_witness:
  "well_formed example_one_hole \<and>
   make_sudoku example_one_hole = Inr (projr (make_sudoku example_one_hole)) \<and>
   ((\<exists>r. solution_of (fst (solve False (projr (make_sudoku example_one_hole)))) = Some r) \<longleftrightarrow>
    (\<exists>r. sudoku_solution r \<and> extends example_one_hole r))"
proof -
  have wf: "well_formed example_one_hole" by code_simp
  have mk: "make_sudoku example_one_hole = Inr (projr (make_sudoku example_one_hole))"
    by code_simp
  show ?thesis using solve_complete [OF wf mk] wf mk by simp
qed

section \<open>The search tree and repeated solving\<close>

text \<open>C4. Every state of the search tree of a well-formed puzzle (every
  \<open>(values, domains)\<close> pair \<open>backtrack\<close> is called with) keeps the givens,
  holds digits only, has no two equal assigned peers, and keeps every
  variable's domain a duplicate-free subset of its initial domain.\<close>

theorem search_inv_reachable:
  assumes "well_formed g0" and "reach g0 vals d"
  shows "search_inv g0 vals d"
  using assms(2)
proof (induction rule: reach.induct)
  case start
  show ?case using assms(1) by (rule search_inv_init)
next
  case (assign vals d v val d')
  then show ?case using search_inv_step by blast
qed

theorem search_inv_reachable_witness:
  "well_formed example_one_hole \<and>
   reach example_one_hole example_solved
     (the (ac3 (grid_variables example_one_hole) (0, 8)
       (upd (init_domains example_one_hole (grid_variables example_one_hole)) (0, 8) (DSet [9])))) \<and>
   search_inv example_one_hole example_solved
     (the (ac3 (grid_variables example_one_hole) (0, 8)
       (upd (init_domains example_one_hole (grid_variables example_one_hole)) (0, 8) (DSet [9]))))"
proof -
  let ?g = example_one_hole
  let ?D = "init_domains ?g (grid_variables ?g)"
  let ?D' = "the (ac3 (grid_variables ?g) (0, 8) (upd ?D (0, 8) (DSet [9])))"
  have wf: "well_formed ?g" by code_simp
  have ns: "\<not> solved ?g" by code_simp
  have uv: "unassigned_variable (grid_variables ?g) ?g ?D = Some (0, 8)" by code_simp
  have v: "9 \<in> set (elems (dget ?D (0, 8)))" by code_simp
  have c: "consistent (grid_variables ?g) (0, 8) (upd ?g (0, 8) (Some 9))" by code_simp
  have a: "ac3 (grid_variables ?g) (0, 8) (upd ?D (0, 8) (DSet [9])) = Some ?D'" by code_simp
  have e: "upd ?g (0, 8) (Some 9) = example_solved" by code_simp
  have r: "reach ?g example_solved ?D'"
    using reach.assign [OF reach.start ns uv v c a] e by simp
  show ?thesis using search_inv_reachable [OF wf r] wf r by simp
qed

text \<open>C14. Solving the same object twice: the counter \<open>this.explored\<close> is
  not reset by \<open>solve\<close>, so the second call returns the same grid and reports
  twice the explored count of the first. The specification's determinism
  property holds only for a fresh object per solve.\<close>

theorem solve_twice:
  assumes "make_sudoku g = Inr s"
    and "solve True s = (SolutionExplored r k, s1)"
    and "solve True s1 = (SolutionExplored r' k', s2)"
  shows "r' = r \<and> k' = 2 * k \<and> explored s2 = k'"
proof -
  have e0: "explored s = 0" and vs: "variables s1 = variables s" "values_grid s1 = values_grid s"
      "domains s1 = domains s" and e1: "explored s1 = k"
    using assms(1,2) make_sudoku_Inr [OF assms(1)]
    by (auto simp: solve_def split: prod.splits)
  let ?B = "backtrack (variables s) (values_grid s) (domains s)"
  have "r = fst (?B 0)" "k = snd (?B 0)"
    using assms(2) e0 by (auto simp: solve_def split: prod.splits)
  moreover have "r' = fst (?B k)" "k' = snd (?B k)" "explored s2 = k'"
    using assms(3) vs e1 by (auto simp: solve_def split: prod.splits)
  ultimately show ?thesis
    using backtrack_from_0 [of "variables s" "values_grid s" "domains s" k] by simp
qed

theorem solve_twice_witness:
  "make_sudoku example_one_hole = Inr (projr (make_sudoku example_one_hole)) \<and>
   solve True (projr (make_sudoku example_one_hole)) =
     (SolutionExplored (Some example_solved) 1, (projr (make_sudoku example_one_hole))\<lparr>explored := 1\<rparr>) \<and>
   solve True ((projr (make_sudoku example_one_hole))\<lparr>explored := 1\<rparr>) =
     (SolutionExplored (Some example_solved) 2, (projr (make_sudoku example_one_hole))\<lparr>explored := 2\<rparr>)"
proof -
  let ?S = "projr (make_sudoku example_one_hole)"
  have mk: "make_sudoku example_one_hole = Inr ?S" by code_simp
  have s1: "solve True ?S = (SolutionExplored (Some example_solved) 1, ?S\<lparr>explored := 1\<rparr>)" by code_simp
  have s2: "solve True (?S\<lparr>explored := 1\<rparr>) = (SolutionExplored (Some example_solved) 2, ?S\<lparr>explored := 2\<rparr>)"
    by code_simp
  show ?thesis using solve_twice [OF mk s1 s2] mk s1 s2 by simp
qed

section \<open>The result for any input, and the one-hole scenario\<close>

text \<open>C11. For every 9x9 input, well formed or not, a grid \<open>solve\<close> returns is
  9x9 with no \<open>null\<close> cell, keeps every given value, and every cell that was
  empty holds a digit different from all its peers. Nothing more is promised:
  givens are never compared with each other, so the witness, whose givens
  hold two 1s in the bottom row, comes back completed with the conflict in
  place, where the specification expects no solution.\<close>

theorem solve_result_filled:
  assumes mk: "make_sudoku g = Inr s" and r: "solution_of (fst (solve b s)) = Some r"
  shows "shape9 r \<and> (\<forall>p \<in> set cells. at r p \<noteq> None) \<and> extends g r \<and>
    (\<forall>p \<in> set cells. at g p = None \<longrightarrow>
       digit (at r p) \<and> (\<forall>q \<in> set cells. peer p q \<longrightarrow> at r p \<noteq> at r q))"
proof -
  have sh: "shape9 g" using mk make_sudoku_shape by blast
  have "fst (backtrack (grid_variables g) g (init_domains g (grid_variables g)) 0) = Some r"
    using r solution_of_solve [OF mk] by simp
  then obtain d' where "reach g r d'" and sv: "solved r"
    using backtrack_reach(1) [OF reach.start refl] by blast
  then have "filled_ok g r" using reach_filled [OF sh] by blast
  then show ?thesis
    using sv solved_iff [of r] by (auto simp: filled_ok_def extends_iff)
qed

theorem solve_result_filled_witness:
  "make_sudoku example_conflict = Inr (projr (make_sudoku example_conflict)) \<and>
   solution_of (fst (solve False (projr (make_sudoku example_conflict)))) =
     Some (upd example_solved (8, 8) (Some 1)) \<and>
   extends example_conflict (upd example_solved (8, 8) (Some 1)) \<and>
   \<not> sudoku_solution (upd example_solved (8, 8) (Some 1))"
proof -
  have mk: "make_sudoku example_conflict = Inr (projr (make_sudoku example_conflict))" by code_simp
  have r: "solution_of (fst (solve False (projr (make_sudoku example_conflict)))) =
      Some (upd example_solved (8, 8) (Some 1))" by code_simp
  have n: "\<not> sudoku_solution (upd example_solved (8, 8) (Some 1))" by code_simp
  show ?thesis using solve_result_filled [OF mk r] mk r n by simp
qed

text \<open>The digit left for a cell whose peers hold exactly 1-8.\<close>

lemma one_hole_init_domain:
  "filter (\<lambda>k. Some k \<notin> set (map Some [1..<9])) [1..<10] = [9::nat]"
  by code_simp

text \<open>C13. End-to-end scenario of the specification, for every well-formed
  grid with exactly one empty cell \<open>p\<close> whose row, column and block hold
  exactly the digits 1-8: \<open>solve\<close> returns the grid with 9 written at \<open>p\<close>
  and nothing else changed, after exploring one node.\<close>

theorem solve_one_hole:
  assumes wf: "well_formed g" and mk: "make_sudoku g = Inr s"
    and p: "p \<in> set cells" "at g p = None"
    and full: "\<forall>q \<in> set cells. q \<noteq> p \<longrightarrow> at g q \<noteq> None"
    and peers: "set (map (at g) (filter (peer p) cells)) = set (map Some [1..<9])"
  shows "solution_of (fst (solve b s)) = Some (upd g p (Some 9)) \<and> explored (snd (solve b s)) = 1"
proof -
  have sh: "shape9 g" using wf by (simp add: well_formed_iff)
  have nulls: "{q \<in> set cells. at g q = None} = {p}" using p full by auto
  have vars: "grid_variables g = [p]"
    using well_formed_variables [OF wf] nulls distinct_grid_variables by (simp add: distinct_set_singleton)
  have "set (unassigned_cells g) = {p}"
    using nulls sh shape9_in_range [OF sh p(1)] by (auto simp: unassigned_cells_def is_null_def)
  then have un: "unassigned_cells g = [p]"
    by (simp add: distinct_set_singleton unassigned_cells_def distinct_cells)
  have pe: "at g ` set (peer_cells p) = set (map Some [1..<9])"
    using peers set_peer_cells [OF p(1)] by simp
  have dom: "init_domain g p = [9]"
    unfolding init_domain_eq pe by (rule one_hole_init_domain)
  let ?D = "init_domains g [p]"
  have dp: "dget ?D p = DSet [9]" using dget_init_domains [OF sh _ p(1), of "[p]"] p(1) dom by simp
  have inr: "in_range ?D p" using sh p(1) by (rule in_range_init_domains)
  have sel: "unassigned_variable [p] g ?D = Some p"
    by (simp add: unassigned_variable_def un dp)
  have ns: "\<not> solved g" using solved_iff [OF sh] p by blast
  have "set (neighbours [p] p) = {}" using set_neighbours [OF p(1)] by auto
  then have nb: "neighbours [p] p = []" by simp
  have cons: "consistent [p] p (upd g p (Some 9))" by (simp add: consistent_def nb)
  have ac: "ac3 [p] p (upd ?D p (DSet [9])) = Some (upd ?D p (DSet [9]))" by (simp add: ac3_def nb)
  have "\<forall>q \<in> set cells. at (upd g p (Some 9)) q \<noteq> None"
    using full sh p(1) by (simp add: at_upd)
  then have sv: "solved (upd g p (Some 9))" using solved_iff [of "upd g p (Some 9)"] sh by simp
  have "backtrack [p] g ?D 0 = (Some (upd g p (Some 9)), 1)"
    using ns sel dp cons ac sv by (simp add: backtrack.simps(1))
  then show ?thesis
    using make_sudoku_Inr [OF mk] vars by (simp add: solve_def solution_of_def)
qed

theorem solve_one_hole_witness:
  "well_formed example_one_hole \<and>
   make_sudoku example_one_hole = Inr (projr (make_sudoku example_one_hole)) \<and>
   (0, 8) \<in> set cells \<and> at example_one_hole (0, 8) = None \<and>
   set (map (at example_one_hole) (filter (peer (0, 8)) cells)) = set (map Some [1..<9]) \<and>
   solution_of (fst (solve True (projr (make_sudoku example_one_hole)))) = Some example_solved \<and>
   explored (snd (solve True (projr (make_sudoku example_one_hole)))) = 1"
proof -
  have wf: "well_formed example_one_hole" by code_simp
  have mk: "make_sudoku example_one_hole = Inr (projr (make_sudoku example_one_hole))" by code_simp
  have p: "(0::nat, 8::nat) \<in> set cells" "at example_one_hole (0, 8) = None" by code_simp+
  have full: "\<forall>q \<in> set cells. q \<noteq> (0, 8) \<longrightarrow> at example_one_hole q \<noteq> None" by code_simp
  have peers: "set (map (at example_one_hole) (filter (peer (0, 8)) cells)) = set (map Some [1..<9])"
    by code_simp
  have e: "upd example_one_hole (0, 8) (Some 9) = example_solved" by code_simp
  show ?thesis using solve_one_hole [OF wf mk p full peers, of True] wf mk p full peers e by simp
qed

end
